theory Spec2Isabelle
  imports Complex_Main "HOL-Library.Word"
begin

unbundle bit_operations_syntax

section \<open>JavaScript numbers\<close>

text \<open>
  A JavaScript number is modelled as either \<open>NaN\<close> or a real. Finite arithmetic is taken
  exact (the rounding of IEEE doubles is not modelled, except where the source relies on
  it on integers, see \<open>toDouble\<close>); infinities and the sign of zero are not represented, and
  a quotient by zero is \<open>NaN\<close>. Every operation propagates \<open>NaN\<close>, and every comparison
  with \<open>NaN\<close> is false, as in the language.
\<close>

datatype number = NaN | Num real

instantiation number :: "{plus,minus,uminus,times,inverse,ord}"
begin

fun plus_number :: "number \<Rightarrow> number \<Rightarrow> number" where
  "plus_number (Num a) (Num b) = Num (a + b)"
| "plus_number _ _ = NaN"

fun minus_number :: "number \<Rightarrow> number \<Rightarrow> number" where
  "minus_number (Num a) (Num b) = Num (a - b)"
| "minus_number _ _ = NaN"

fun uminus_number :: "number \<Rightarrow> number" where
  "uminus_number (Num a) = Num (- a)"
| "uminus_number NaN = NaN"

fun times_number :: "number \<Rightarrow> number \<Rightarrow> number" where
  "times_number (Num a) (Num b) = Num (a * b)"
| "times_number _ _ = NaN"

fun divide_number :: "number \<Rightarrow> number \<Rightarrow> number" where
  "divide_number (Num a) (Num b) = (if b = 0 then NaN else Num (a / b))"
| "divide_number _ _ = NaN"

fun inverse_number :: "number \<Rightarrow> number" where
  "inverse_number (Num a) = (if a = 0 then NaN else Num (inverse a))"
| "inverse_number NaN = NaN"

fun less_eq_number :: "number \<Rightarrow> number \<Rightarrow> bool" where
  "less_eq_number (Num a) (Num b) = (a \<le> b)"
| "less_eq_number _ _ = False"

fun less_number :: "number \<Rightarrow> number \<Rightarrow> bool" where
  "less_number (Num a) (Num b) = (a < b)"
| "less_number _ _ = False"

instance ..

end

text \<open>\<open>Math.max\<close> and \<open>Math.min\<close>: \<open>NaN\<close> as soon as one argument is.\<close>

fun Math_max :: "number \<Rightarrow> number \<Rightarrow> number" where
  "Math_max (Num a) (Num b) = Num (max a b)"
| "Math_max _ _ = NaN"

fun Math_min :: "number \<Rightarrow> number \<Rightarrow> number" where
  "Math_min (Num a) (Num b) = Num (min a b)"
| "Math_min _ _ = NaN"

text \<open>The remainder \<open>a % b\<close>: the quotient is truncated towards zero, so the result has
  the sign of the dividend.\<close>

definition trunc :: "real \<Rightarrow> int" where
  "trunc x = (if x < 0 then - \<lfloor>- x\<rfloor> else \<lfloor>x\<rfloor>)"

definition fmod :: "real \<Rightarrow> real \<Rightarrow> real" where
  "fmod a b = a - b * of_int (trunc (a / b))"

fun js_rem :: "number \<Rightarrow> number \<Rightarrow> number" where
  "js_rem (Num a) (Num b) = (if b = 0 then NaN else Num (fmod a b))"
| "js_rem _ _ = NaN"

fun Math_floor :: "number \<Rightarrow> number" where
  "Math_floor (Num a) = Num (of_int \<lfloor>a\<rfloor>)"
| "Math_floor NaN = NaN"

text \<open>\<open>Math.round\<close> rounds half up.\<close>

definition round_half_up :: "real \<Rightarrow> int" where
  "round_half_up x = \<lfloor>x + 1 / 2\<rfloor>"

fun Math_round :: "number \<Rightarrow> number" where
  "Math_round (Num a) = Num (of_int (round_half_up a))"
| "Math_round NaN = NaN"

fun Math_cos :: "number \<Rightarrow> number" where
  "Math_cos (Num a) = Num (cos a)"
| "Math_cos NaN = NaN"

fun Math_sin :: "number \<Rightarrow> number" where
  "Math_sin (Num a) = Num (sin a)"
| "Math_sin NaN = NaN"

text \<open>\<open>Math.pow\<close>, used by the source on non-negative bases with the constant exponents
  \<open>2.4\<close> and \<open>1 / 2.4\<close> only.\<close>

fun Math_pow :: "number \<Rightarrow> number \<Rightarrow> number" where
  "Math_pow (Num a) (Num b) = (if a < 0 then NaN else Num (a powr b))"
| "Math_pow _ _ = NaN"

text \<open>\<open>ToInt32\<close>, the conversion behind \<open>x | 0\<close>, \<open>x >> k\<close> and \<open>x & k\<close>: \<open>NaN\<close> reads
  as 0, any other number is truncated and wrapped to 32 bits.\<close>

fun ToInt32 :: "number \<Rightarrow> 32 word" where
  "ToInt32 (Num a) = word_of_int (trunc a)"
| "ToInt32 NaN = 0"

text \<open>
  The double nearest to an integer. Integers below \<open>2 ^ 53\<close> in magnitude are doubles;
  a larger one keeps its 53 leading bits, rounded to nearest, ties to even.
\<close>

fun bitLength :: "nat \<Rightarrow> nat" where
  "bitLength n = (if n = 0 then 0 else Suc (bitLength (n div 2)))"

declare bitLength.simps [simp del]

definition toDouble_nat :: "nat \<Rightarrow> nat" where
  "toDouble_nat a =
     (if a < 2 ^ 53 then a
      else let e = bitLength a - 53;
               q = a div 2 ^ e;
               r = a mod 2 ^ e;
               h = 2 ^ (e - 1)
           in (if r > h \<or> (r = h \<and> odd q) then q + 1 else q) * 2 ^ e)"

definition toDouble :: "int \<Rightarrow> int" where
  "toDouble n = (if n < 0 then - int (toDouble_nat (nat (- n))) else int (toDouble_nat (nat n)))"

section \<open>Strings\<close>

text \<open>
  A string is a list of code units; the model takes the code units below 256 (type
  \<open>char\<close>), where the language's case mapping and white space are the ones written here.
\<close>

definition charCode :: "char \<Rightarrow> nat" where
  "charCode c = of_char c"

text \<open>White space and line terminators: TAB, LF, VT, FF, CR, SP and NBSP.\<close>

definition isWhiteSpace :: "char \<Rightarrow> bool" where
  "isWhiteSpace c = (charCode c \<in> {9, 10, 11, 12, 13, 32, 160})"

definition trimStart :: "string \<Rightarrow> string" where
  "trimStart s = dropWhile isWhiteSpace s"

definition trim :: "string \<Rightarrow> string" where
  "trim s = rev (dropWhile isWhiteSpace (rev (dropWhile isWhiteSpace s)))"

text \<open>\<open>toLowerCase\<close>: A to Z, and the capital letters of Latin-1 (U+00C0 to U+00DE
  but the multiplication sign U+00D7), move up by 32.\<close>

definition isUpperCode :: "nat \<Rightarrow> bool" where
  "isUpperCode n = ((65 \<le> n \<and> n \<le> 90) \<or> (192 \<le> n \<and> n \<le> 222 \<and> n \<noteq> 215))"

definition lowerChar :: "char \<Rightarrow> char" where
  "lowerChar c = (if isUpperCode (charCode c) then char_of (charCode c + 32) else c)"

definition toLowerCase :: "string \<Rightarrow> string" where
  "toLowerCase s = map lowerChar s"

section \<open>hash.ts\<close>

text \<open>
  \<open>fnv1a\<close>. The running hash is kept as its 32 bits. \<open>hash ^= c\<close> leaves a signed 32-bit
  value, \<open>hash * 0x01000193\<close> is a product of doubles (so it is rounded once it passes
  \<open>2 ^ 53\<close>), and \<open>>>> 0\<close> wraps it to 32 bits again.
\<close>

definition fnv1a_step :: "32 word \<Rightarrow> char \<Rightarrow> 32 word" where
  "fnv1a_step hash c =
     (let h = hash XOR word_of_nat (charCode c)
      in word_of_int (toDouble (sint h * 0x01000193)))"

definition fnv1a :: "string \<Rightarrow> 32 word" where
  "fnv1a str = foldl fnv1a_step 0x811c9dc5 str"

text \<open>\<open>seededRng\<close> (Mulberry32): one call of the closure, from the state \<open>s\<close> to the value
  returned and the new state.\<close>

definition seededRng_next :: "32 word \<Rightarrow> number \<times> 32 word" where
  "seededRng_next s0 =
     (let s = s0 + 0x6d2b79f5;
          t = (s XOR drop_bit 15 s) * (1 OR s);
          t = (t + (t XOR drop_bit 7 t) * (61 OR t)) XOR t
      in (Num (real (unat (t XOR drop_bit 14 t)) / 4294967296), s))"

text \<open>\<open>Array.from({ length: count }, () => rng())\<close>: \<open>count\<close> calls in order.\<close>

fun drawSeeds :: "nat \<Rightarrow> 32 word \<Rightarrow> number list" where
  "drawSeeds 0 s = []"
| "drawSeeds (Suc n) s = (case seededRng_next s of (v, s') \<Rightarrow> v # drawSeeds n s')"

definition hashToSeeds :: "string \<Rightarrow> nat \<Rightarrow> number list" where
  "hashToSeeds hash count = drawSeeds count (fnv1a (trim (toLowerCase hash)))"

section \<open>color.ts\<close>

datatype error = TypeError | IndexSizeError

record OklchColor =
  oklch_l :: number
  oklch_c :: number
  oklch_h :: number

subsection \<open>Built-ins used by the conversions\<close>

text \<open>\<open>hex.replace('#', '')\<close> removes the first \<open>#\<close> only.\<close>

definition removeHash :: "string \<Rightarrow> string" where
  "removeHash s =
     takeWhile (\<lambda>c. c \<noteq> CHR ''#'') s @ drop 1 (dropWhile (\<lambda>c. c \<noteq> CHR ''#'') s)"

definition startsWith :: "string \<Rightarrow> string \<Rightarrow> bool" where
  "startsWith s p = (take (length p) s = p)"

definition endsWith :: "string \<Rightarrow> string \<Rightarrow> bool" where
  "endsWith s p = (length p \<le> length s \<and> drop (length s - length p) s = p)"

definition isDigit :: "char \<Rightarrow> bool" where
  "isDigit c = (48 \<le> charCode c \<and> charCode c \<le> 57)"

definition isHexDigit :: "char \<Rightarrow> bool" where
  "isHexDigit c =
     (isDigit c \<or> (65 \<le> charCode c \<and> charCode c \<le> 70) \<or> (97 \<le> charCode c \<and> charCode c \<le> 102))"

definition isAsciiLetter :: "char \<Rightarrow> bool" where
  "isAsciiLetter c =
     ((65 \<le> charCode c \<and> charCode c \<le> 90) \<or> (97 \<le> charCode c \<and> charCode c \<le> 122))"

definition hexDigitValue :: "char \<Rightarrow> nat" where
  "hexDigitValue c =
     (if isDigit c then charCode c - 48
      else if 97 \<le> charCode c then charCode c - 87
      else charCode c - 55)"

definition digitsValue :: "nat \<Rightarrow> string \<Rightarrow> nat" where
  "digitsValue radix ds = foldl (\<lambda>acc d. acc * radix + hexDigitValue d) 0 ds"

text \<open>
  \<open>parseInt(s, 16)\<close>: leading white space, a sign and a \<open>0x\<close> prefix are skipped, then the
  longest run of hexadecimal digits is read; none gives \<open>NaN\<close>. The value is the nearest
  double. A value beyond the doubles is \<open>Infinity\<close> in the language; the source only ever
  passes the result to \<open>>>\<close> and \<open>&\<close>, which read \<open>Infinity\<close> and \<open>NaN\<close> alike as 0, and the
  model returns \<open>NaN\<close> there.
\<close>

definition parseInt16 :: "string \<Rightarrow> number" where
  "parseInt16 str =
     (let s = trimStart str;
          neg = startsWith s ''-'';
          s = (if startsWith s ''+'' \<or> startsWith s ''-'' then drop 1 s else s);
          s = (if startsWith s ''0x'' \<or> startsWith s ''0X'' then drop 2 s else s);
          z = takeWhile isHexDigit s;
          d = toDouble_nat (digitsValue 16 z)
      in if z = [] \<or> 2 ^ 1024 \<le> d then NaN
         else Num (if neg then - real d else real d))"

text \<open>\<open>parseFloat\<close>, on the strings the source gives it: those matched by \<open>[\d.]+%?\<close>, so
  no sign, exponent or \<open>Infinity\<close>. The longest prefix that is a decimal literal is read;
  without any digit the result is \<open>NaN\<close>. The value is the literal's exact value: the
  rounding to a double, and the overflow to \<open>Infinity\<close> of a literal beyond the doubles,
  are not modelled.\<close>

definition parseFloat :: "string \<Rightarrow> number" where
  "parseFloat s =
     (let ip = takeWhile isDigit s;
          r = dropWhile isDigit s;
          fp = (if startsWith r ''.'' then takeWhile isDigit (drop 1 r) else [])
      in if ip = [] \<and> fp = [] then NaN
         else Num (real (digitsValue 10 ip) + real (digitsValue 10 fp) / 10 ^ length fp))"

definition hexDigitChar :: "nat \<Rightarrow> char" where
  "hexDigitChar d = (if d < 10 then char_of (48 + d) else char_of (87 + d))"

fun hexOfNat :: "nat \<Rightarrow> string" where
  "hexOfNat n = (if n < 16 then [hexDigitChar n] else hexOfNat (n div 16) @ [hexDigitChar (n mod 16)])"

text \<open>\<open>x.toString(16)\<close> for the values the source gives it, the results of \<open>Math.round\<close>:
  an integer or \<open>NaN\<close>.\<close>

fun toString16 :: "number \<Rightarrow> string" where
  "toString16 NaN = ''NaN''"
| "toString16 (Num a) =
     (if a < 0 then ''-'' @ hexOfNat (nat (- trunc a)) else hexOfNat (nat (trunc a)))"

definition padStart :: "string \<Rightarrow> nat \<Rightarrow> char \<Rightarrow> string" where
  "padStart s n p = replicate (n - length s) p @ s"

fun Math_cbrt :: "number \<Rightarrow> number" where
  "Math_cbrt (Num a) = Num (root 3 a)"
| "Math_cbrt NaN = NaN"

fun Math_sqrt :: "number \<Rightarrow> number" where
  "Math_sqrt (Num a) = Num (sqrt a)"
| "Math_sqrt NaN = NaN"

definition atan2 :: "real \<Rightarrow> real \<Rightarrow> real" where
  "atan2 y x =
     (if 0 < x then arctan (y / x)
      else if x < 0 then (if 0 \<le> y then arctan (y / x) + pi else arctan (y / x) - pi)
      else if 0 < y then pi / 2
      else if y < 0 then - pi / 2
      else 0)"

fun Math_atan2 :: "number \<Rightarrow> number \<Rightarrow> number" where
  "Math_atan2 (Num y) (Num x) = Num (atan2 y x)"
| "Math_atan2 _ _ = NaN"

definition Math_PI :: number where
  "Math_PI = Num pi"

text \<open>\<open>(n >> k) & 255\<close> on a number: \<open>ToInt32\<close>, an arithmetic shift, and the low byte.\<close>

definition shiftByte :: "number \<Rightarrow> nat \<Rightarrow> nat" where
  "shiftByte n k = unat (signed_drop_bit k (ToInt32 n) AND 255)"

subsection \<open>Conversions\<close>

definition hexToRgb :: "string \<Rightarrow> nat \<times> nat \<times> nat" where
  "hexToRgb hex =
     (let clean = removeHash hex;
          full = (if length clean = 3 then concat (map (\<lambda>c. [c, c]) clean) else clean);
          n = parseInt16 full
      in (shiftByte n 16, shiftByte n 8, shiftByte n 0))"

definition linearize :: "number \<Rightarrow> number" where
  "linearize c =
     (let s = c / Num 255
      in if s \<le> Num 0.04045 then s / Num 12.92
         else Math_pow ((s + Num 0.055) / Num 1.055) (Num 2.4))"

definition rgbToOklch :: "number \<Rightarrow> number \<Rightarrow> number \<Rightarrow> OklchColor" where
  "rgbToOklch r g b =
     (let rl = linearize r; gl = linearize g; bl = linearize b;
          x = Num 0.4124564 * rl + Num 0.3575761 * gl + Num 0.1804375 * bl;
          y = Num 0.2126729 * rl + Num 0.7151522 * gl + Num 0.0721750 * bl;
          z = Num 0.0193339 * rl + Num 0.1191920 * gl + Num 0.9503041 * bl;
          lm = Math_cbrt (Num 0.8189330101 * x + Num 0.3618667424 * y - Num 0.1288597137 * z);
          mm = Math_cbrt (Num 0.0329845436 * x + Num 0.9293118715 * y + Num 0.0361456387 * z);
          sm = Math_cbrt (Num 0.0482003018 * x + Num 0.2643662691 * y + Num 0.6338517070 * z);
          L = Num 0.2104542553 * lm + Num 0.7936177850 * mm - Num 0.0040720468 * sm;
          a = Num 1.9779984951 * lm - Num 2.4285922050 * mm + Num 0.4505937099 * sm;
          bk = Num 0.0259040371 * lm + Num 0.7827717662 * mm - Num 0.8086757660 * sm
      in \<lparr>oklch_l = L,
          oklch_c = Math_sqrt (a * a + bk * bk),
          oklch_h = js_rem ((Math_atan2 bk a * Num 180 / Math_PI) + Num 360) (Num 360)\<rparr>)"

definition toSrgb :: "number \<Rightarrow> number" where
  "toSrgb v =
     (let cv = Math_max (Num 0) (Math_min (Num 1) v)
      in if cv \<le> Num 0.0031308 then cv * Num 12.92
         else Num 1.055 * Math_pow cv (Num 1 / Num 2.4) - Num 0.055)"

definition hexByte :: "number \<Rightarrow> string" where
  "hexByte v = padStart (toString16 (Math_round (toSrgb v * Num 255))) 2 (CHR ''0'')"

definition oklchToHex :: "OklchColor \<Rightarrow> string" where
  "oklchToHex col =
     (let l = oklch_l col; c = oklch_c col; h = oklch_h col;
          hRad = h * Math_PI / Num 180;
          a = c * Math_cos hRad; b = c * Math_sin hRad;
          lm = l + Num 0.3963377774 * a + Num 0.2158037573 * b;
          mm = l - Num 0.1055613458 * a - Num 0.0638541728 * b;
          sm = l - Num 0.0894841775 * a - Num 1.2914855480 * b;
          L3 = lm * lm * lm; M3 = mm * mm * mm; S3 = sm * sm * sm;
          rl = Num 4.0767416621 * L3 - Num 3.3077115913 * M3 + Num 0.2309699292 * S3;
          gl = - Num 1.2684380046 * L3 + Num 2.6097574011 * M3 - Num 0.3413193965 * S3;
          bl = - Num 0.0041960863 * L3 - Num 0.7034186147 * M3 + Num 1.7076147010 * S3
      in ''#'' @ concat (map hexByte [rl, gl, bl]))"

subsection \<open>Tone parsing\<close>

text \<open>
  The environment of \<open>parseTone\<close>: \<open>None\<close> where \<open>document\<close> is undefined; otherwise the
  pixel that a 1 by 1 canvas shows after \<open>fillStyle = t\<close> and \<open>fillRect\<close>, for each token.
\<close>

type_synonym document = "(string \<Rightarrow> nat \<times> nat \<times> nat) option"

definition isDigitOrDot :: "char \<Rightarrow> bool" where
  "isDigitOrDot c = (isDigit c \<or> c = CHR ''.'')"

text \<open>
  The pattern \<open>/oklch\(\s*([\d.]+%?)\s+([\d.]+)\s+([\d.]+)\s*\)/i\<close> tried at the start of
  a string. Each repetition is followed by a character outside its class, so the greedy
  reading is the only one, and the groups are read from left to right.
\<close>

definition matchOklchAt :: "string \<Rightarrow> (string \<times> string \<times> string) option" where
  "matchOklchAt s =
     (if map lowerChar (take 6 s) \<noteq> ''oklch('' then None
      else let r1 = dropWhile isWhiteSpace (drop 6 s);
               d1 = takeWhile isDigitOrDot r1;
               r2 = dropWhile isDigitOrDot r1;
               g1 = (if startsWith r2 ''%'' then d1 @ ''%'' else d1);
               r3 = (if startsWith r2 ''%'' then drop 1 r2 else r2);
               r4 = dropWhile isWhiteSpace r3;
               g2 = takeWhile isDigitOrDot r4;
               r5 = dropWhile isDigitOrDot r4;
               r6 = dropWhile isWhiteSpace r5;
               g3 = takeWhile isDigitOrDot r6;
               r7 = dropWhile isWhiteSpace (dropWhile isDigitOrDot r6)
           in if d1 \<noteq> [] \<and> r4 \<noteq> r3 \<and> g2 \<noteq> [] \<and> r6 \<noteq> r5 \<and> g3 \<noteq> [] \<and> startsWith r7 '')''
              then Some (g1, g2, g3) else None)"

text \<open>\<open>t.match(...)\<close>: the leftmost position where the pattern matches.\<close>

fun matchOklch :: "string \<Rightarrow> (string \<times> string \<times> string) option" where
  "matchOklch [] = None"
| "matchOklch (x # xs) =
     (case matchOklchAt (x # xs) of Some m \<Rightarrow> Some m | None \<Rightarrow> matchOklch xs)"

definition parseTone :: "document \<Rightarrow> string \<Rightarrow> OklchColor option" where
  "parseTone doc tone =
     (let t = trim tone
      in if t \<noteq> [] \<and> list_all isAsciiLetter t then
           (case doc of
              None \<Rightarrow> None
            | Some fill \<Rightarrow>
                (case fill t of (r, g, b) \<Rightarrow>
                   if r + g + b > 0 \<or> toLowerCase t = ''black''
                   then Some (rgbToOklch (Num (real r)) (Num (real g)) (Num (real b)))
                   else None))
         else if startsWith t ''#'' \<or> (3 \<le> length t \<and> length t \<le> 6 \<and> list_all isHexDigit t) then
           (case hexToRgb (if startsWith t ''#'' then t else ''#'' @ t) of (r, g, b) \<Rightarrow>
              Some (rgbToOklch (Num (real r)) (Num (real g)) (Num (real b))))
         else
           (case matchOklch t of
              Some (m1, m2, m3) \<Rightarrow>
                Some \<lparr>oklch_l = (if endsWith m1 ''%'' then parseFloat m1 / Num 100 else parseFloat m1),
                      oklch_c = parseFloat m2,
                      oklch_h = parseFloat m3\<rparr>
            | None \<Rightarrow> None))"

subsection \<open>Color generation\<close>

text \<open>\<open>xs[i]\<close> with a number as index: an element for an integer within range,
  \<open>undefined\<close> (here \<open>None\<close>) otherwise.\<close>

fun elementAt :: "'a list \<Rightarrow> number \<Rightarrow> 'a option" where
  "elementAt xs NaN = None"
| "elementAt xs (Num i) =
     (if 0 \<le> i \<and> i < real (length xs) \<and> i = of_int \<lfloor>i\<rfloor> then Some (xs ! nat \<lfloor>i\<rfloor>) else None)"

text \<open>Reading a property of \<open>undefined\<close> throws a \<open>TypeError\<close>.\<close>

definition generateColor ::
  "number \<Rightarrow> number \<Rightarrow> number \<Rightarrow> OklchColor list option \<Rightarrow> bool \<Rightarrow> number option
     \<Rightarrow> error + OklchColor" where
  "generateColor seed lSeed cSeed tones isSecondary baseHue =
     (if tones \<noteq> None \<and> length (the tones) > 0 then
        (let ts = the tones;
             n = Num (real (length ts));
             ti = js_rem (Math_floor (seed * n)) n
         in case elementAt ts ti of
              None \<Rightarrow> Inl TypeError
            | Some tone \<Rightarrow>
                (let h = js_rem (oklch_h tone + (seed * Num 2 - Num 1) * Num 30 + Num 360) (Num 360);
                     l = (if isSecondary then Num 0.22 + lSeed * Num 0.18
                          else Num 0.52 + lSeed * Num 0.22);
                     c = (if isSecondary
                          then Math_max (oklch_c tone * Num 0.5) (Num 0.06) + cSeed * Num 0.08
                          else Math_max (oklch_c tone * Num 0.8) (Num 0.14) + cSeed * Num 0.10)
                 in Inr \<lparr>oklch_l = l, oklch_c = Math_min c (Num 0.37), oklch_h = h\<rparr>))
      else
        (let hue = (case baseHue of Some bh \<Rightarrow> bh | None \<Rightarrow> seed * Num 360);
             h = js_rem (hue + Num 360) (Num 360);
             l = (if isSecondary then Num 0.18 + cSeed * Num 0.20 else Num 0.55 + lSeed * Num 0.22);
             c = (if isSecondary then Num 0.08 + lSeed * Num 0.12 else Num 0.18 + cSeed * Num 0.18)
         in Inr \<lparr>oklch_l = l, oklch_c = Math_min c (Num 0.37), oklch_h = h\<rparr>))"

section \<open>index.ts\<close>

text \<open>\<open>seeds[i]\<close> read as a number: \<open>undefined\<close> past the end, which arithmetic turns
  into \<open>NaN\<close>.\<close>

definition seedAt :: "number list \<Rightarrow> nat \<Rightarrow> number" where
  "seedAt seeds i = (if i < length seeds then seeds ! i else NaN)"

text \<open>\<open>Array.from({ length: count }, (_, i) => f(i))\<close> where \<open>f\<close> may throw: the first
  exception ends the loop.\<close>

fun arrayFrom :: "(nat \<Rightarrow> error + 'a) \<Rightarrow> nat list \<Rightarrow> error + 'a list" where
  "arrayFrom f [] = Inr []"
| "arrayFrom f (i # is) =
     (case f i of
        Inl e \<Rightarrow> Inl e
      | Inr x \<Rightarrow> (case arrayFrom f is of Inl e \<Rightarrow> Inl e | Inr xs \<Rightarrow> Inr (x # xs)))"

definition parsedTones :: "document \<Rightarrow> string list \<Rightarrow> OklchColor list" where
  "parsedTones doc tones = map the (filter (\<lambda>t. t \<noteq> None) (map (parseTone doc) tones))"

definition hashToColors ::
  "document \<Rightarrow> string \<Rightarrow> string list option \<Rightarrow> nat \<Rightarrow> error + OklchColor list" where
  "hashToColors doc hash tones count =
     (let seeds = hashToSeeds hash (count * 3);
          parsed = map_option (parsedTones doc) tones;
          toneList = (case parsed of Some (p # ps) \<Rightarrow> Some (p # ps) | _ \<Rightarrow> None);
          baseHue = (case toneList of
                       Some _ \<Rightarrow> None
                     | None \<Rightarrow> Some (js_rem (seedAt seeds 0 * Num 360) (Num 360)))
      in arrayFrom
           (\<lambda>i. generateColor (seedAt seeds (i * 3)) (seedAt seeds (i * 3 + 1))
                   (seedAt seeds (i * 3 + 2)) toneList (i > 0) baseHue)
           [0..<count])"

section \<open>The canvas\<close>

text \<open>
  The canvas is the caller's. The model keeps what the renderers assign to it (the size
  of its bitmap, and its CSS size in pixels) and the calls they make on its 2D context,
  in order; what a call draws is the browser's business. \<open>PutImageData\<close> carries the
  pixel buffer, four bytes (red, green, blue, alpha) for each pixel, row by row.
\<close>

datatype ctxCall =
    Scale number number
  | Translate number number
  | Rotate number
  | Save
  | Restore
  | BeginPath
  | MoveTo real real
  | LineTo real real
  | ClosePath
  | Fill
  | SetFillStyle string
  | ClearRect real real real real
  | FillRect real real real real
  | SetFilterBlur real
  | SetGlobalCompositeOperation string
  | SetGlobalAlpha real
  | BoxBlur real real int nat
  | DrawImage "ctxCall list" real real real real real real real real
  | PutImageData "nat list"

record canvas =
  width :: real
  height :: real
  style_width :: "real option"
  style_height :: "real option"
  calls :: "ctxCall list"

text \<open>The handle a renderer returns when it animates: the closure that cancels the
  pending frame request.\<close>

datatype handle = CancelAnimationFrame

text \<open>\<open>window.devicePixelRatio\<close>: \<open>None\<close> where \<open>window\<close> is undefined or has no ratio.\<close>

definition getDevicePixelRatio :: "real option \<Rightarrow> real" where
  "getDevicePixelRatio window =
     (case window of None \<Rightarrow> 1 | Some r \<Rightarrow> if r = 0 then 1 else min r 3)"

section \<open>dither.ts\<close>

definition BAYER8 :: "nat list list" where
  "BAYER8 =
    [[ 0,32, 8,40, 2,34,10,42],
     [48,16,56,24,50,18,58,26],
     [12,44, 4,36,14,46, 6,38],
     [60,28,52,20,62,30,54,22],
     [ 3,35,11,43, 1,33, 9,41],
     [51,19,59,27,49,17,57,25],
     [15,47, 7,39,13,45, 5,37],
     [63,31,55,23,61,29,53,21]]"

definition bayer :: "int \<Rightarrow> int \<Rightarrow> number" where
  "bayer gy gx = Num (real (BAYER8 ! nat (gy mod 8) ! nat (gx mod 8)) / 64)"

text \<open>The \<open>hexToRgb\<close> of dither.ts (no three-digit form).\<close>

definition dither_hexToRgb :: "string \<Rightarrow> nat \<times> nat \<times> nat" where
  "dither_hexToRgb hex =
     (let n = parseInt16 (removeHash hex)
      in (shiftByte n 16, shiftByte n 8, shiftByte n 0))"

text \<open>\<open>colors[i]\<close> for an integer \<open>i\<close>, and \<open>oklchToHex\<close> of it: destructuring
  \<open>undefined\<close> throws.\<close>

definition colorAt :: "OklchColor list \<Rightarrow> int \<Rightarrow> OklchColor option" where
  "colorAt cs i = (if 0 \<le> i \<and> i < int (length cs) then Some (cs ! nat i) else None)"

definition paletteRgb :: "OklchColor list \<Rightarrow> int \<Rightarrow> error + nat \<times> nat \<times> nat" where
  "paletteRgb cs i =
     (case colorAt cs i of
        None \<Rightarrow> Inl TypeError
      | Some col \<Rightarrow> Inr (dither_hexToRgb (oklchToHex col)))"

text \<open>The values of a \<open>for (let i = 0; i < n; i++)\<close> loop.\<close>

definition upTo :: "int \<Rightarrow> int list" where
  "upTo n = map int [0..<nat n]"

text \<open>\<open>x | 0\<close> as a number again.\<close>

definition orZero :: "number \<Rightarrow> number" where
  "orZero x = Num (real_of_int (sint (ToInt32 x)))"

definition cellPhase :: "number list \<Rightarrow> int \<Rightarrow> int \<Rightarrow> number" where
  "cellPhase sds gx gy =
     js_rem (Num (real_of_int (gx * 31 + gy * 17)) * (seedAt sds 2 * Num 1000 + Num 1)
             + orZero (seedAt sds 3 * Num 1000)) (Num 1000)
     / Num 1000 * Math_PI * Num 2"

definition cellAmp :: "number list \<Rightarrow> int \<Rightarrow> int \<Rightarrow> number" where
  "cellAmp sds gx gy =
     Num 0.035
     + js_rem (orZero (Num (real_of_int (gx * 7 + gy * 13)) + seedAt sds 2 * Num 50)) (Num 55)
       / Num 1100"

text \<open>The eased value \<open>t\<close> of the cell \<open>(gx, gy)\<close> in the frame of phase \<open>phase\<close>.\<close>

definition cellT ::
  "bool \<Rightarrow> number list \<Rightarrow> number \<Rightarrow> number \<Rightarrow> number \<Rightarrow> number \<Rightarrow> int \<Rightarrow> int \<Rightarrow> int \<Rightarrow> number" where
  "cellT anim sds phase cosA sinA falloff gridSize gx gy =
     (let padding = 1;
          nx = Num (real_of_int (gx - padding) + 0.5) / Num (real_of_int (gridSize - padding * 2));
          ny = Num (real_of_int (gy - padding) + 0.5) / Num (real_of_int (gridSize - padding * 2));
          proj = (nx - Num 0.5) * cosA + (ny - Num 0.5) * sinA;
          drift = (if anim then
                     (let p = cellPhase sds gx gy; a = cellAmp sds gx gy
                      in a * Math_sin (phase * Num 0.3 + p)
                         + a * Num 0.55 * Math_sin (phase * Num 0.1 + p * Num 1.7)
                         + Num 0.012 * Math_sin (phase * Num 0.2))
                   else Num 0);
          tRaw = (proj - drift + falloff) / (falloff * Num 2);
          tClamp = Math_max (Num 0) (Math_min (Num 1) tRaw)
      in tClamp * tClamp * (Num 3 - Num 2 * tClamp))"

text \<open>The buffer indices that the two inner loops write for one cell: the index of the
  red byte of each pixel of the cell that passes the bounds check.\<close>

definition cellWrites :: "int \<Rightarrow> int \<Rightarrow> int \<Rightarrow> int \<Rightarrow> int list" where
  "cellWrites sizePx dotScale gx gy =
     concat (map (\<lambda>py. concat (map (\<lambda>px.
        (let padding = 1;
             x = (gx - padding) * dotScale + px;
             y = (gy - padding) * dotScale + py
         in if x < 0 \<or> y < 0 \<or> x \<ge> sizePx \<or> y \<ge> sizePx then []
            else [(y * sizePx + x) * 4])) (upTo dotScale))) (upTo dotScale))"

text \<open>All the indices the cell loops of one frame write, in order. A cell with
  \<open>t > bayer\<close> is skipped.\<close>

definition drawWrites ::
  "bool \<Rightarrow> number list \<Rightarrow> number \<Rightarrow> number \<Rightarrow> number \<Rightarrow> number \<Rightarrow> int \<Rightarrow> int \<Rightarrow> int \<Rightarrow> int list" where
  "drawWrites anim sds phase cosA sinA falloff sizePx dotScale gridSize =
     concat (map (\<lambda>gy. concat (map (\<lambda>gx.
        if cellT anim sds phase cosA sinA falloff gridSize gx gy > bayer gy gx then []
        else cellWrites sizePx dotScale gx gy) (upTo gridSize))) (upTo gridSize))"

text \<open>The options of the two renderers.\<close>

record GradientOptions =
  size' :: real
  colors :: "OklchColor list"
  animated :: bool
  seeds :: "number list"

record DitherOptions = GradientOptions +
  dotScale :: "real option"

text \<open>A store into the \<open>Uint8ClampedArray\<close>: an index outside the array is ignored.\<close>

definition setByte :: "nat list \<Rightarrow> int \<Rightarrow> nat \<Rightarrow> nat list" where
  "setByte d i v = (if 0 \<le> i \<and> i < int (length d) then d[nat i := min v 255] else d)"

definition fillPixel :: "nat \<times> nat \<times> nat \<Rightarrow> nat list \<Rightarrow> int \<Rightarrow> nat list" where
  "fillPixel col d i =
     (case col of (r, g, b) \<Rightarrow>
        setByte (setByte (setByte (setByte d i r) (i + 1) g) (i + 2) b) (i + 3) 255)"

definition paintPixel :: "nat \<times> nat \<times> nat \<Rightarrow> nat list \<Rightarrow> int \<Rightarrow> nat list" where
  "paintPixel col d idx =
     (case col of (r, g, b) \<Rightarrow> setByte (setByte (setByte d idx r) (idx + 1) g) (idx + 2) b)"

text \<open>\<open>ctx.createImageData(w, h)\<close>: an \<open>IndexSizeError\<close> for a zero side, a transparent
  black buffer of \<open>|w|\<close> by \<open>|h|\<close> pixels otherwise.\<close>

definition createImageData :: "int \<Rightarrow> int \<Rightarrow> error + nat list" where
  "createImageData w h =
     (if w = 0 \<or> h = 0 then Inl IndexSizeError
      else Inr (replicate (4 * nat \<bar>w\<bar> * nat \<bar>h\<bar>) 0))"

text \<open>The constants of one render, computed before \<open>draw\<close> is defined.\<close>

record DitherSetup =
  sizePx :: int
  dotScalePx :: int
  colA :: "nat \<times> nat \<times> nat"
  colB :: "nat \<times> nat \<times> nat"
  baseAngle :: number
  falloff :: number
  gridSize :: int

text \<open>The indices that the cell loops of \<open>draw(phase)\<close> write, with the angle of the
  frame.\<close>

definition frameWrites :: "DitherOptions \<Rightarrow> DitherSetup \<Rightarrow> number \<Rightarrow> int list" where
  "frameWrites opts su phase =
     (let swirlSpeed = Num 0.45;
          angle = baseAngle su + (if animated opts then phase * swirlSpeed else Num 0);
          cosA = Math_cos angle;
          sinA = Math_sin angle
      in drawWrites (animated opts) (seeds opts) phase cosA sinA (falloff su)
           (sizePx su) (dotScalePx su) (gridSize su))"

text \<open>\<open>draw(phase)\<close>: the buffer handed to \<open>putImageData\<close>. The buffer is created, every
  pixel is set to \<open>colB\<close> at full alpha, and the cell loops then store \<open>colA\<close> at the
  indices they reach.\<close>

definition draw :: "DitherOptions \<Rightarrow> DitherSetup \<Rightarrow> number \<Rightarrow> error + nat list" where
  "draw opts su phase =
     (case createImageData (sizePx su) (sizePx su) of
        Inl e \<Rightarrow> Inl e
      | Inr d \<Rightarrow>
         (let d = foldl (fillPixel (colB su)) d (map (\<lambda>k. k * 4) (upTo (sizePx su * sizePx su)));
              d = foldl (paintPixel (colA su)) d (frameWrites opts su phase)
          in Inr d))"

definition ditherSetup :: "real option \<Rightarrow> DitherOptions \<Rightarrow> error + DitherSetup" where
  "ditherSetup window opts =
     (let dpr = getDevicePixelRatio window;
          spx = round_half_up (size' opts * dpr);
          dotScaleLogical = (case dotScale opts of
                               Some ds \<Rightarrow> ds
                             | None \<Rightarrow> max 2 (real_of_int (round_half_up (size' opts / 35))));
          ds = max 1 (round_half_up (dotScaleLogical * dpr))
      in case paletteRgb (colors opts) 0 of
           Inl e \<Rightarrow> Inl e
         | Inr a \<Rightarrow>
            (case paletteRgb (colors opts) (min 1 (int (length (colors opts)) - 1)) of
               Inl e \<Rightarrow> Inl e
             | Inr b \<Rightarrow>
                Inr \<lparr>sizePx = spx, dotScalePx = ds, colA = a, colB = b,
                     baseAngle = seedAt (seeds opts) 0 * Math_PI * Num 2,
                     falloff = Num 0.55 + seedAt (seeds opts) 1 * Num 0.25,
                     gridSize = \<lceil>real_of_int spx / real_of_int ds\<rceil> + 1 * 2\<rparr>))"

text \<open>
  \<open>renderDither\<close>. The canvas is sized first; a static render draws the frame of phase 0
  and returns no handle; an animated one requests a frame and returns the handle, and
  each frame is drawn by \<open>tick\<close>.
\<close>

definition sizeCanvas :: "canvas \<Rightarrow> real \<Rightarrow> real \<Rightarrow> canvas" where
  "sizeCanvas cv px css =
     cv\<lparr>width := px, height := px, style_width := Some css, style_height := Some css\<rparr>"

definition renderDither ::
  "real option \<Rightarrow> canvas \<Rightarrow> DitherOptions \<Rightarrow> error + handle option \<times> canvas" where
  "renderDither window cv opts =
     (case ditherSetup window opts of
        Inl e \<Rightarrow> Inl e
      | Inr su \<Rightarrow>
         (let cv = sizeCanvas cv (real_of_int (sizePx su)) (size' opts)
          in if \<not> animated opts then
               (case draw opts su (Num 0) of
                  Inl e \<Rightarrow> Inl e
                | Inr d \<Rightarrow> Inr (None, cv\<lparr>calls := calls cv @ [PutImageData d]\<rparr>))
             else Inr (Some CancelAnimationFrame, cv)))"

text \<open>The state of the frame loop and one \<open>tick(now)\<close>.\<close>

record animation =
  phase :: number
  lastTime :: real

definition dither_tick ::
  "DitherOptions \<Rightarrow> DitherSetup \<Rightarrow> animation \<times> canvas \<Rightarrow> real \<Rightarrow> error + animation \<times> canvas" where
  "dither_tick opts su st now =
     (case st of (an, cv) \<Rightarrow>
        (let SPEED = 0.55;
             ph = (if lastTime an \<noteq> 0
                   then phase an + Num ((now - lastTime an) * 0.001 * SPEED) else phase an)
         in case draw opts su ph of
              Inl e \<Rightarrow> Inl e
            | Inr d \<Rightarrow>
               Inr (\<lparr>phase = ph, lastTime = now\<rparr>, cv\<lparr>calls := calls cv @ [PutImageData d]\<rparr>)))"

section \<open>gradient.ts\<close>

definition SHAPES :: "(real \<times> real) list list" where
  "SHAPES =
    [[(0.85, 0.5), (0.75, 0.18), (0.38, 0.22), (0.18, 0.52), (0.38, 0.82), (0.72, 0.78)],
     [(0.22, 0.32), (0.78, 0.28), (0.82, 0.62), (0.5, 0.88), (0.18, 0.68), (0.28, 0.48)],
     [(0.5, 0.12), (0.88, 0.45), (0.72, 0.88), (0.28, 0.82), (0.12, 0.42), (0.35, 0.18)],
     [(0.62, 0.25), (0.9, 0.55), (0.65, 0.9), (0.25, 0.7), (0.1, 0.4), (0.35, 0.15)],
     [(0.15, 0.2), (0.55, 0.08), (0.92, 0.35), (0.78, 0.75), (0.4, 0.92), (0.2, 0.6)],
     [(0.45, 0.08), (0.82, 0.3), (0.7, 0.85), (0.3, 0.88), (0.08, 0.5), (0.25, 0.25)]]"

text \<open>
  \<open>hasFilterBlur\<close>, with the module's cache \<open>_filterSupported\<close> as state. \<open>probe\<close> is what
  the probe finds in this browser (false when it throws).
\<close>

definition hasFilterBlur :: "bool \<Rightarrow> bool option \<Rightarrow> bool \<times> bool option" where
  "hasFilterBlur probe cache =
     (case cache of Some b \<Rightarrow> (b, cache) | None \<Rightarrow> (probe, Some probe))"

text \<open>\<open>boxBlurCanvas\<close> works on the bitmap of the off-screen canvas, which the model
  does not hold: the call is recorded with the radius \<open>r\<close> it computes.\<close>

definition boxBlurCanvas :: "real \<Rightarrow> real \<Rightarrow> real \<Rightarrow> nat \<Rightarrow> ctxCall list" where
  "boxBlurCanvas w h radius passes =
     [BoxBlur w h (max 1 (round_half_up ((sqrt (4 * radius * radius + 1) - 1) / 2))) passes]"

definition drawShape ::
  "(real \<times> real) list \<Rightarrow> real \<Rightarrow> number \<Rightarrow> number \<Rightarrow> number \<Rightarrow> number \<Rightarrow> string \<Rightarrow> real \<Rightarrow> real
     \<Rightarrow> ctxCall list" where
  "drawShape path sz tx ty rot scl fillStyle offsetX offsetY =
     (let cx = sz / 2; cy = sz / 2
      in [Save, Translate (Num (offsetX + cx)) (Num (offsetY + cy)), Translate tx ty,
          Rotate rot, Scale scl scl, Translate (Num (- cx)) (Num (- cy)), BeginPath]
         @ (case path of
              [] \<Rightarrow> []
            | p # ps \<Rightarrow> MoveTo (fst p * sz) (snd p * sz) # map (\<lambda>q. LineTo (fst q * sz) (snd q * sz)) ps)
         @ [ClosePath, SetFillStyle fillStyle, Fill, Restore])"

definition LAYER_OPTS :: "(string \<times> real) list" where
  "LAYER_OPTS =
     [(''source-over'', 0.9), (''overlay'', 0.48), (''soft-light'', 0.7),
      (''source-over'', 0.78), (''overlay'', 0.4), (''soft-light'', 0.6)]"

definition ROT_SPEEDS :: "real list" where
  "ROT_SPEEDS = [0.5, 0.6, 0.45, 0.55, 0.5, 0.65]"

definition DRIFT_FREQS :: "real list" where
  "DRIFT_FREQS = [0.5, 0.45, 0.4, 0.48, 0.52, 0.38]"

definition DRIFT_PHASE_OFFSETS :: "real list" where
  "DRIFT_PHASE_OFFSETS = [0, 1, 2, 0.5, 1.5, 3]"

text \<open>The calls of one layer of \<open>draw(phase)\<close>: the shape drawn off screen (and blurred
  there when the context has no filter), then composited.\<close>

definition drawLayer ::
  "GradientOptions \<Rightarrow> real \<Rightarrow> bool \<Rightarrow> number list \<Rightarrow> string list \<Rightarrow> number \<Rightarrow> nat \<Rightarrow> ctxCall list" where
  "drawLayer opts dpr useFilter allSeeds hexColors ph i =
     (let sz = size' opts;
          anim = animated opts;
          blur = max 2 (real_of_int (round_half_up (sz * 0.21)));
          pad = real_of_int \<lceil>blur * 1.9\<rceil>;
          w = sz + pad * 2;
          h = sz + pad * 2;
          animResScale = (if \<not> useFilter \<and> anim then 0.5 else 1);
          offWidth = w * dpr * animResScale;
          offHeight = h * dpr * animResScale;
          j = i * 4;
          tx = (seedAt allSeeds j - Num 0.5) * Num sz * Num 0.35;
          ty = (seedAt allSeeds (j + 1) - Num 0.5) * Num sz * Num 0.35;
          rotate = (seedAt allSeeds (j + 2) - Num 0.5) * Math_PI * Num 1.2;
          scale = Num 0.85 + seedAt allSeeds (j + 3) * Num 0.5;
          DRIFT_AMP = Num (sz * 0.18);
          rot = rotate + (if anim then ph * Num (ROT_SPEEDS ! i) else Num 0);
          driftX = (if anim
                    then DRIFT_AMP * Math_sin (ph * Num (DRIFT_FREQS ! i) + Num (DRIFT_PHASE_OFFSETS ! i))
                    else Num 0);
          driftY = (if anim
                    then DRIFT_AMP * Math_sin (ph * Num (DRIFT_FREQS ! ((i + 2) mod 6))
                                                + Num (DRIFT_PHASE_OFFSETS ! i * 1.3))
                    else Num 0);
          scalePulse = (if anim then Num 1 + Num 0.15 * Math_sin (ph * Num 0.9 + Num (real i * 0.7))
                        else Num 1);
          scl = scale * scalePulse;
          off = ClearRect 0 0 w h
                # drawShape (SHAPES ! i) sz (tx + driftX) (ty + driftY) rot scl (hexColors ! (i mod 3)) pad pad
                @ (if useFilter then []
                   else boxBlurCanvas offWidth offHeight (blur * dpr * 1.4 * animResScale)
                          (if animResScale < 1 then 2 else 3))
      in [Save]
         @ (if useFilter then [SetFilterBlur (blur * dpr)] else [])
         @ [SetGlobalCompositeOperation (fst (LAYER_OPTS ! i)), SetGlobalAlpha (snd (LAYER_OPTS ! i)),
            DrawImage off 0 0 offWidth offHeight (- pad) (- pad) w h,
            Restore])"

definition gradient_draw ::
  "GradientOptions \<Rightarrow> real \<Rightarrow> bool \<Rightarrow> number list \<Rightarrow> string \<Rightarrow> string list \<Rightarrow> number \<Rightarrow> ctxCall list" where
  "gradient_draw opts dpr useFilter allSeeds hex0 hexColors ph =
     [ClearRect 0 0 (size' opts) (size' opts), SetFillStyle hex0,
      FillRect 0 0 (size' opts) (size' opts)]
     @ concat (map (drawLayer opts dpr useFilter allSeeds hexColors ph) [0..<6])
     @ [SetGlobalCompositeOperation ''source-over'', SetGlobalAlpha 1]"

text \<open>
  \<open>renderGradient\<close>. The state is the module's cache and the canvas. \<open>numToString\<close> is the
  language's \<open>Number.prototype.toString\<close>; calling it on a missing seed throws.
\<close>

definition renderGradient ::
  "real option \<Rightarrow> bool \<Rightarrow> (number \<Rightarrow> string) \<Rightarrow> bool option \<times> canvas \<Rightarrow> GradientOptions
     \<Rightarrow> error + handle option \<times> (bool option \<times> canvas)" where
  "renderGradient window probe numToString st opts =
     (case st of (cache, cv) \<Rightarrow>
        if length (colors opts) < 4 then Inr (None, (cache, cv))
        else
          (let dpr = getDevicePixelRatio window;
               cv = sizeCanvas cv (size' opts * dpr) (size' opts);
               cv = cv\<lparr>calls := calls cv @ [Scale (Num dpr) (Num dpr)]\<rparr>
           in if length (seeds opts) < 4 then Inl TypeError
              else
                (let mix = concat (map numToString (take 4 (seeds opts)));
                     allSeeds = hashToSeeds mix 24;
                     hex0 = oklchToHex (colors opts ! 0);
                     hexColors = [oklchToHex (colors opts ! 1), oklchToHex (colors opts ! 2),
                                  oklchToHex (colors opts ! 3)]
                 in case hasFilterBlur probe cache of (useFilter, cache) \<Rightarrow>
                      if \<not> animated opts then
                        Inr (None, (cache,
                               cv\<lparr>calls := calls cv
                                     @ gradient_draw opts dpr useFilter allSeeds hex0 hexColors (Num 0)\<rparr>))
                      else Inr (Some CancelAnimationFrame, (cache, cv)))))"

section \<open>Notions used in the statements\<close>

text \<open>The tones that parse (none where \<open>tones\<close> is undefined), and the chroma that
  \<open>generateColor\<close> derives from a tone before the cap.\<close>

abbreviation (input) toneChroma :: "bool \<Rightarrow> OklchColor \<Rightarrow> number \<Rightarrow> number" where
  "toneChroma sec tone cSeed \<equiv>
     (if sec then Math_max (oklch_c tone * Num 0.5) (Num 0.06) + cSeed * Num 0.08
      else Math_max (oklch_c tone * Num 0.8) (Num 0.14) + cSeed * Num 0.10)"

abbreviation (input) toneListOf :: "document \<Rightarrow> string list option \<Rightarrow> OklchColor list" where
  "toneListOf doc tones \<equiv> (case tones of None \<Rightarrow> [] | Some ts \<Rightarrow> parsedTones doc ts)"

text \<open>The pixel \<open>k\<close> of a buffer, as its four bytes, and a color with full alpha.\<close>

definition pixelAt :: "nat list \<Rightarrow> nat \<Rightarrow> nat \<times> nat \<times> nat \<times> nat" where
  "pixelAt d k = (d ! (4 * k), d ! (4 * k + 1), d ! (4 * k + 2), d ! (4 * k + 3))"

definition pixels :: "nat list \<Rightarrow> (nat \<times> nat \<times> nat \<times> nat) list" where
  "pixels d = map (pixelAt d) [0..<length d div 4]"

definition opaque :: "nat \<times> nat \<times> nat \<Rightarrow> nat \<times> nat \<times> nat \<times> nat" where
  "opaque col = (case col of (r, g, b) \<Rightarrow> (r, g, b, 255))"

text \<open>The buffer of the last \<open>putImageData\<close> of a render (empty when there is none).\<close>

definition renderedImage :: "error + handle option \<times> canvas \<Rightarrow> nat list" where
  "renderedImage res =
     (case res of
        Inl e \<Rightarrow> []
      | Inr (h, cv) \<Rightarrow>
         (case rev (calls cv) of PutImageData d # cs \<Rightarrow> d | _ \<Rightarrow> []))"

text \<open>The side of the bitmap in device pixels, and the two colors of the dither renderer
  as it encodes them.\<close>

abbreviation (input) pixelSize :: "real option \<Rightarrow> DitherOptions \<Rightarrow> int" where
  "pixelSize window opts \<equiv> round_half_up (size' opts * getDevicePixelRatio window)"

abbreviation (input) encoded :: "OklchColor \<Rightarrow> nat \<times> nat \<times> nat" where
  "encoded col \<equiv> dither_hexToRgb (oklchToHex col)"

section \<open>Evaluation of the string functions\<close>

lemmas string_defs =
  trimStart_def trim_def isWhiteSpace_def startsWith_def endsWith_def isHexDigit_def isDigit_def
  charCode_def digitsValue_def hexDigitValue_def removeHash_def isAsciiLetter_def
  isDigitOrDot_def toLowerCase_def lowerChar_def isUpperCode_def

section \<open>The seed generator\<close>

lemma seededRng_next_range:
  "\<exists>x. fst (seededRng_next s) = Num x \<and> 0 \<le> x \<and> x < 1"
proof -
  obtain u :: "32 word" where u: "fst (seededRng_next s) = Num (real (unat u) / 4294967296)"
    by (simp add: seededRng_next_def Let_def)
  have "unat u < 2 ^ LENGTH(32)" by (rule unsigned_less)
  hence "unat u < 4294967296" by simp
  hence "real (unat u) < real 4294967296" by (simp only: of_nat_less_iff)
  hence "real (unat u) / 4294967296 < 1" by (simp del: of_nat_unat)
  moreover have "0 \<le> real (unat u) / 4294967296" by (simp del: of_nat_unat)
  ultimately show ?thesis using u by blast
qed

lemma length_drawSeeds: "length (drawSeeds n s) = n"
  by (induction n arbitrary: s) (simp_all split: prod.splits)

lemma drawSeeds_range:
  "v \<in> set (drawSeeds n s) \<Longrightarrow> \<exists>x. v = Num x \<and> 0 \<le> x \<and> x < 1"
proof (induction n arbitrary: s)
  case 0
  then show ?case by simp
next
  case (Suc n)
  obtain a s' where eq: "seededRng_next s = (a, s')" by (cases "seededRng_next s")
  from Suc.prems eq have "v = a \<or> v \<in> set (drawSeeds n s')" by simp
  then show ?case
  proof
    assume "v = a"
    with eq seededRng_next_range [of s] show ?thesis by simp
  next
    assume "v \<in> set (drawSeeds n s')"
    then show ?thesis by (rule Suc.IH)
  qed
qed

lemma length_hashToSeeds: "length (hashToSeeds s n) = n"
  by (simp add: hashToSeeds_def length_drawSeeds)

lemma hashToSeeds_range:
  "v \<in> set (hashToSeeds s n) \<Longrightarrow> \<exists>x. v = Num x \<and> 0 \<le> x \<and> x < 1"
  unfolding hashToSeeds_def by (rule drawSeeds_range)

text \<open>
  C1. For every string \<open>s\<close> and every count \<open>n\<close>, \<open>hashToSeeds s n\<close> is a sequence of
  exactly \<open>n\<close> values, and each of them is a number in the half-open interval from 0 to 1.
\<close>

theorem hashToSeeds_length_and_range:
  "length (hashToSeeds s n) = n
   \<and> (\<forall>v \<in> set (hashToSeeds s n). \<exists>x. v = Num x \<and> 0 \<le> x \<and> x < 1)"
  using length_hashToSeeds hashToSeeds_range by blast

text \<open>The seeds of \<open>"abc"\<close>, computed.\<close>

lemma fnv1a_abc: "fnv1a ''abc'' = 440920332"
  by (simp add: fnv1a_def fnv1a_step_def toDouble_def toDouble_nat_def charCode_def Let_def
        bitLength.simps)

lemma seededRng_abc:
  "seededRng_next 440920332 = (Num (4224357959 / 4294967296), 2272486145)"
  "seededRng_next 2272486145 = (Num (680063321 / 4294967296), 4104051958)"
  by (simp_all add: seededRng_next_def Let_def drop_bit_eq_div)

lemma hashToSeeds_abc:
  "hashToSeeds ''abc'' 2 = [Num (4224357959 / 4294967296), Num (680063321 / 4294967296)]"
proof -
  have "trim (toLowerCase ''abc'') = ''abc''" by code_simp
  thus ?thesis
    by (simp add: hashToSeeds_def fnv1a_abc seededRng_abc numeral_2_eq_2)
qed

theorem hashToSeeds_length_and_range_witness:
  "hashToSeeds ''abc'' 2 = [Num (4224357959 / 4294967296), Num (680063321 / 4294967296)]
   \<and> length (hashToSeeds ''abc'' 2) = 2
   \<and> (\<exists>x. hashToSeeds ''abc'' 2 ! 1 = Num x \<and> 0 \<le> x \<and> x < 1)"
proof -
  note t = hashToSeeds_length_and_range [of "''abc''" 2]
  from t have len: "length (hashToSeeds ''abc'' 2) = 2" by (rule conjunct1)
  hence "hashToSeeds ''abc'' 2 ! 1 \<in> set (hashToSeeds ''abc'' 2)"
    by (simp only: nth_mem one_less_numeral_iff semiring_norm)
  with t len hashToSeeds_abc show ?thesis by blast
qed

section \<open>Normalisation of the input\<close>

lemma charCode_char_of: "n < 256 \<Longrightarrow> charCode (char_of n) = n"
  by (simp add: charCode_def)

lemma lowerChar_other: "\<not> isUpperCode (charCode c) \<Longrightarrow> lowerChar c = c"
  by (simp add: lowerChar_def)

lemma lowerChar_upper:
  assumes "isUpperCode (charCode c)"
  shows "charCode (lowerChar c) = charCode c + 32"
proof -
  from assms have l: "lowerChar c = char_of (charCode c + 32)"
    by (simp add: lowerChar_def)
  from assms have "charCode c + 32 < 256" by (auto simp add: isUpperCode_def)
  hence "charCode (char_of (charCode c + 32)) = charCode c + 32" by (rule charCode_char_of)
  with l show ?thesis by simp
qed

lemma lowerChar_idem: "lowerChar (lowerChar c) = lowerChar c"
proof (cases "isUpperCode (charCode c)")
  case True
  hence "charCode (lowerChar c) = charCode c + 32" by (rule lowerChar_upper)
  with True have "\<not> isUpperCode (charCode (lowerChar c))" by (auto simp add: isUpperCode_def)
  thus ?thesis by (rule lowerChar_other)
next
  case False
  thus ?thesis by (simp add: lowerChar_other)
qed

lemma isWhiteSpace_lowerChar: "isWhiteSpace (lowerChar c) = isWhiteSpace c"
proof (cases "isUpperCode (charCode c)")
  case True
  hence "charCode (lowerChar c) = charCode c + 32" by (rule lowerChar_upper)
  with True show ?thesis by (auto simp add: isUpperCode_def isWhiteSpace_def)
next
  case False
  thus ?thesis by (simp add: lowerChar_other)
qed

lemma dropWhile_map_lowerChar:
  "dropWhile isWhiteSpace (map lowerChar s) = map lowerChar (dropWhile isWhiteSpace s)"
  by (induction s) (simp_all add: isWhiteSpace_lowerChar)

lemma trim_toLowerCase: "trim (toLowerCase s) = toLowerCase (trim s)"
  by (simp add: trim_def toLowerCase_def dropWhile_map_lowerChar rev_map)

lemma toLowerCase_idem: "toLowerCase (toLowerCase s) = toLowerCase s"
  by (simp add: toLowerCase_def lowerChar_idem)

lemma dropWhile_rev_keeps_hd:
  assumes "xs = [] \<or> \<not> P (hd xs)"
  shows "dropWhile P (rev (dropWhile P (rev xs))) = rev (dropWhile P (rev xs))"
  by (metis assms dropWhile_eq_self_iff dropWhile_last hd_rev last_in_set
    last_rev rev_is_Nil_conv)

lemma dropWhile_idem: "dropWhile P (dropWhile P xs) = dropWhile P xs"
  by (metis dropWhile_eq_self_iff hd_dropWhile)

lemma trim_idem: "trim (trim s) = trim s"
proof -
  define ys where "ys = dropWhile isWhiteSpace s"
  have "ys = [] \<or> \<not> isWhiteSpace (hd ys)"
    unfolding ys_def using hd_dropWhile [of isWhiteSpace s] by blast
  hence "dropWhile isWhiteSpace (rev (dropWhile isWhiteSpace (rev ys)))
         = rev (dropWhile isWhiteSpace (rev ys))"
    by (rule dropWhile_rev_keeps_hd)
  thus ?thesis by (simp add: trim_def ys_def dropWhile_idem)
qed

lemma normalize_idem: "trim (toLowerCase (trim (toLowerCase s))) = trim (toLowerCase s)"
  by (simp add: trim_toLowerCase toLowerCase_idem trim_idem)

text \<open>
  C2. \<open>hashToSeeds\<close> does not change when its input is replaced by its trimmed,
  lower-case form; in particular \<open>" S "\<close> and \<open>"s"\<close> give the same seeds.
\<close>

theorem hashToSeeds_trim_lowercase:
  "hashToSeeds s n = hashToSeeds (trim (toLowerCase s)) n
   \<and> hashToSeeds '' S '' n = hashToSeeds ''s'' n"
proof
  show "hashToSeeds s n = hashToSeeds (trim (toLowerCase s)) n"
    by (simp add: hashToSeeds_def normalize_idem)
  have "trim (toLowerCase '' S '') = trim (toLowerCase ''s'')"
    by code_simp
  thus "hashToSeeds '' S '' n = hashToSeeds ''s'' n"
    by (simp only: hashToSeeds_def)
qed

theorem hashToSeeds_trim_lowercase_witness:
  "trim (toLowerCase ''  Vitalik.ETH '') = ''vitalik.eth''
   \<and> hashToSeeds ''  Vitalik.ETH '' 4 = hashToSeeds ''vitalik.eth'' 4"
proof -
  have e: "trim (toLowerCase ''  Vitalik.ETH '') = ''vitalik.eth''"
    by code_simp
  from hashToSeeds_trim_lowercase [of "''  Vitalik.ETH ''" 4]
  have "hashToSeeds ''  Vitalik.ETH '' 4 = hashToSeeds (trim (toLowerCase ''  Vitalik.ETH '')) 4"
    by (rule conjunct1)
  with e show ?thesis by simp
qed

section \<open>The palette\<close>

lemma trunc_of_int: "trunc (of_int k) = k"
  by (simp add: trunc_def)

lemma trunc_unit: "0 \<le> x \<Longrightarrow> x < 1 \<Longrightarrow> trunc x = 0"
  by (simp add: trunc_def floor_eq_iff)

lemma fmod_small:
  assumes "0 \<le> a" "a < b"
  shows "fmod a b = a"
proof -
  from assms have "0 \<le> a / b" "a / b < 1" by simp_all
  hence "trunc (a / b) = 0" by (rule trunc_unit)
  thus ?thesis by (simp add: fmod_def)
qed

lemma tone_index:
  assumes x: "0 \<le> x" "x < 1" and ts: "ts \<noteq> []"
  shows "\<exists>k < length ts.
           js_rem (Math_floor (Num x * Num (real (length ts)))) (Num (real (length ts)))
           = Num (real k)"
proof -
  define n where "n = length ts"
  from ts have n: "0 < n" by (simp add: n_def)
  define k where "k = nat \<lfloor>x * real n\<rfloor>"
  from x n have nonneg: "0 \<le> x * real n" by simp
  hence fl: "real_of_int \<lfloor>x * real n\<rfloor> = real k" by (simp add: k_def)
  from x n have "x * real n < real n" by simp
  hence "\<lfloor>x * real n\<rfloor> < int n" by (simp add: floor_less_iff)
  with nonneg have kn: "k < n" by (simp add: k_def nat_less_iff)
  hence "fmod (real k) (real n) = real k" by (intro fmod_small) simp_all
  with n fl have "js_rem (Math_floor (Num x * Num (real n))) (Num (real n)) = Num (real k)"
    by simp
  with kn show ?thesis unfolding n_def by blast
qed

lemma elementAt_nat: "k < length ts \<Longrightarrow> elementAt ts (Num (real k)) = Some (ts ! k)"
  by simp

lemma generateColor_chroma:
  assumes "generateColor seed lSeed cSeed tones sec bh = Inr col"
  shows "oklch_c col = NaN \<or> (\<exists>x. oklch_c col = Num x \<and> x \<le> 0.37)"
proof -
  have m: "\<And>c. Math_min c (Num 0.37) = NaN \<or> (\<exists>x. Math_min c (Num 0.37) = Num x \<and> x \<le> 0.37)"
  proof -
    fix c show "Math_min c (Num 0.37) = NaN \<or> (\<exists>x. Math_min c (Num 0.37) = Num x \<and> x \<le> 0.37)"
      by (cases c) simp_all
  qed
  from assms obtain c where "oklch_c col = Math_min c (Num 0.37)"
    by (auto simp add: generateColor_def Let_def split: if_splits option.splits)
  with m [of c] show ?thesis by simp
qed


lemma arrayFrom_Inr:
  assumes "\<And>i. i \<in> set js \<Longrightarrow> \<exists>x. f i = Inr x \<and> P x"
  shows "\<exists>xs. arrayFrom f js = Inr xs \<and> length xs = length js \<and> (\<forall>x \<in> set xs. P x)"
  using assms
proof (induction js)
  case Nil
  then show ?case by simp
next
  case (Cons i js)
  from Cons.prems [of i] obtain x where x: "f i = Inr x" "P x" by auto
  from Cons.IH Cons.prems obtain xs
    where xs: "arrayFrom f js = Inr xs" "length xs = length js" "\<forall>x \<in> set xs. P x"
    by auto
  from x xs show ?case by simp
qed

lemma seedAt_hashToSeeds:
  assumes "i < n"
  shows "\<exists>x. seedAt (hashToSeeds s n) i = Num x \<and> 0 \<le> x \<and> x < 1"
proof -
  from assms have "hashToSeeds s n ! i \<in> set (hashToSeeds s n)"
    by (simp add: length_hashToSeeds)
  hence "\<exists>x. hashToSeeds s n ! i = Num x \<and> 0 \<le> x \<and> x < 1" by (rule hashToSeeds_range)
  with assms show ?thesis by (simp add: seedAt_def length_hashToSeeds)
qed

lemma generateColor_with_tones:
  assumes x: "0 \<le> x" "x < 1" and ts: "ts \<noteq> []"
  shows "\<exists>tone \<in> set ts. \<exists>col.
           generateColor (Num x) lSeed cSeed (Some ts) sec bh = Inr col
           \<and> oklch_c col = Math_min (toneChroma sec tone cSeed) (Num 0.37)"
proof -
  from tone_index [OF x ts] obtain k where k: "k < length ts"
    "js_rem (Math_floor (Num x * Num (real (length ts)))) (Num (real (length ts))) = Num (real k)"
    by blast
  from k(1) have e: "elementAt ts (Num (real k)) = Some (ts ! k)" by (rule elementAt_nat)
  from k(1) have "ts ! k \<in> set ts" by simp
  moreover from ts k(2) e
  have "\<exists>col. generateColor (Num x) lSeed cSeed (Some ts) sec bh = Inr col
           \<and> oklch_c col = Math_min (toneChroma sec (ts ! k) cSeed) (Num 0.37)"
    by (simp add: generateColor_def Let_def)
  ultimately show ?thesis by blast
qed

lemma generateColor_without_tones:
  "generateColor seed lSeed cSeed None sec (Some bh) =
     Inr \<lparr>oklch_l = (if sec then Num 0.18 + cSeed * Num 0.20 else Num 0.55 + lSeed * Num 0.22),
          oklch_c = Math_min (if sec then Num 0.08 + lSeed * Num 0.12 else Num 0.18 + cSeed * Num 0.18)
                      (Num 0.37),
          oklch_h = js_rem (bh + Num 360) (Num 360)\<rparr>"
  by (simp add: generateColor_def Let_def)

lemma generateColor_monotone_chroma:
  assumes "lSeed \<noteq> NaN" "cSeed \<noteq> NaN"
  shows "\<exists>col. generateColor seed lSeed cSeed None sec (Some bh) = Inr col
           \<and> (\<exists>x. oklch_c col = Num x \<and> x \<le> 0.37)"
  using assms by (cases lSeed; cases cSeed) (auto simp add: generateColor_without_tones min_def)

lemma Math_min_cap: "c \<noteq> NaN \<Longrightarrow> \<exists>x. Math_min c (Num 0.37) = Num x \<and> x \<le> 0.37"
  by (cases c) simp_all

lemma toneChroma_number:
  "oklch_c tone \<noteq> NaN \<Longrightarrow> cSeed \<noteq> NaN \<Longrightarrow> toneChroma sec tone cSeed \<noteq> NaN"
  by (cases "oklch_c tone"; cases cSeed) simp_all

lemma hashToColors_monotone:
  assumes "toneListOf doc tones = []"
  shows "hashToColors doc hash tones count =
           arrayFrom (\<lambda>i. generateColor (seedAt (hashToSeeds hash (count * 3)) (i * 3))
                            (seedAt (hashToSeeds hash (count * 3)) (i * 3 + 1))
                            (seedAt (hashToSeeds hash (count * 3)) (i * 3 + 2)) None (i > 0)
                            (Some (js_rem (seedAt (hashToSeeds hash (count * 3)) 0 * Num 360) (Num 360))))
             [0..<count]"
  using assms by (cases tones) (simp_all add: hashToColors_def Let_def)

lemma hashToColors_toned:
  assumes "toneListOf doc tones \<noteq> []"
  shows "hashToColors doc hash tones count =
           arrayFrom (\<lambda>i. generateColor (seedAt (hashToSeeds hash (count * 3)) (i * 3))
                            (seedAt (hashToSeeds hash (count * 3)) (i * 3 + 1))
                            (seedAt (hashToSeeds hash (count * 3)) (i * 3 + 2))
                            (Some (toneListOf doc tones)) (i > 0) None)
             [0..<count]"
  using assms
  by (cases tones; cases "toneListOf doc tones")
     (simp_all add: hashToColors_def Let_def)


lemma hashToColors_seeds:
  assumes "i \<in> set [0..<count]" "j < 3"
  shows "\<exists>x. seedAt (hashToSeeds hash (count * 3)) (i * 3 + j) = Num x \<and> 0 \<le> x \<and> x < 1"
proof -
  from assms have "i * 3 + j < count * 3" by simp
  thus ?thesis by (rule seedAt_hashToSeeds)
qed

lemma hashToColors_chroma:
  assumes num: "\<forall>t \<in> set (toneListOf doc tones). oklch_c t \<noteq> NaN"
  shows "\<exists>cols. hashToColors doc hash tones count = Inr cols \<and> length cols = count
           \<and> (\<forall>col \<in> set cols. \<exists>x. oklch_c col = Num x \<and> x \<le> 0.37)"
proof (cases "toneListOf doc tones = []")
  case True
  define sds where "sds = hashToSeeds hash (count * 3)"
  have "\<exists>xs. arrayFrom (\<lambda>i. generateColor (seedAt sds (i * 3)) (seedAt sds (i * 3 + 1))
                  (seedAt sds (i * 3 + 2)) None (i > 0)
                  (Some (js_rem (seedAt sds 0 * Num 360) (Num 360)))) [0..<count] = Inr xs
          \<and> length xs = length [0..<count]
          \<and> (\<forall>col \<in> set xs. \<exists>x. oklch_c col = Num x \<and> x \<le> 0.37)"
  proof (rule arrayFrom_Inr)
    fix i assume i: "i \<in> set [0..<count]"
    from hashToColors_seeds [OF i, of 1 hash] have l: "seedAt sds (i * 3 + 1) \<noteq> NaN"
      by (auto simp add: sds_def)
    from hashToColors_seeds [OF i, of 2 hash] have c: "seedAt sds (i * 3 + 2) \<noteq> NaN"
      by (auto simp add: sds_def)
    from l c
    show "\<exists>col. generateColor (seedAt sds (i * 3)) (seedAt sds (i * 3 + 1))
                  (seedAt sds (i * 3 + 2)) None (i > 0)
                  (Some (js_rem (seedAt sds 0 * Num 360) (Num 360))) = Inr col
             \<and> (\<exists>x. oklch_c col = Num x \<and> x \<le> 0.37)"
      by (rule generateColor_monotone_chroma)
  qed
  with True show ?thesis by (simp add: hashToColors_monotone sds_def)
next
  case False
  define sds where "sds = hashToSeeds hash (count * 3)"
  define ts where "ts = toneListOf doc tones"
  have "\<exists>xs. arrayFrom (\<lambda>i. generateColor (seedAt sds (i * 3)) (seedAt sds (i * 3 + 1))
                  (seedAt sds (i * 3 + 2)) (Some ts) (i > 0) None) [0..<count] = Inr xs
          \<and> length xs = length [0..<count]
          \<and> (\<forall>col \<in> set xs. \<exists>x. oklch_c col = Num x \<and> x \<le> 0.37)"
  proof (rule arrayFrom_Inr)
    fix i assume i: "i \<in> set [0..<count]"
    from hashToColors_seeds [OF i, of 0 hash] obtain x
      where x: "seedAt sds (i * 3) = Num x" "0 \<le> x" "x < 1"
      by (auto simp add: sds_def)
    from hashToColors_seeds [OF i, of 2 hash] obtain b where b: "seedAt sds (i * 3 + 2) = Num b"
      by (auto simp add: sds_def)
    from False have "ts \<noteq> []" by (simp add: ts_def)
    from generateColor_with_tones [OF x(2,3) this]
    obtain tone col where tc: "tone \<in> set ts"
      "generateColor (Num x) (seedAt sds (i * 3 + 1)) (Num b) (Some ts) (i > 0) None = Inr col"
      "oklch_c col = Math_min (toneChroma (i > 0) tone (Num b)) (Num 0.37)"
      by blast
    from tc(1) num have "oklch_c tone \<noteq> NaN" by (simp add: ts_def)
    hence "toneChroma (i > 0) tone (Num b) \<noteq> NaN" by (rule toneChroma_number) simp
    hence "\<exists>y. Math_min (toneChroma (i > 0) tone (Num b)) (Num 0.37) = Num y \<and> y \<le> 0.37"
      by (rule Math_min_cap)
    with tc x b
    show "\<exists>col. generateColor (seedAt sds (i * 3)) (seedAt sds (i * 3 + 1))
                  (seedAt sds (i * 3 + 2)) (Some ts) (i > 0) None = Inr col
             \<and> (\<exists>x. oklch_c col = Num x \<and> x \<le> 0.37)"
      by auto
  qed
  with False show ?thesis by (simp add: hashToColors_toned sds_def ts_def)
qed


lemma parseTone_dot: "parseTone doc ''oklch(0.5 . 30)'' = Some \<lparr>oklch_l = Num 0.5, oklch_c = NaN, oklch_h = Num 30\<rparr>"
  by (simp add: parseTone_def matchOklchAt_def parseFloat_def string_defs)




text \<open>
  C3. \<open>parseTone\<close> on hex and \<open>oklch\<close> tokens of invalid format or arity: it does not
  return none for all of them. It returns a color for a \<open>#\<close> token with characters that
  are not hexadecimal digits (black), for hex tokens of two or five digits, and for an
  \<open>oklch\<close> literal whose chroma is a lone dot (a color of chroma \<open>NaN\<close>).
\<close>

theorem parseTone_accepts_invalid_literals:
  "parseTone doc ''#xyz'' = Some (rgbToOklch (Num 0) (Num 0) (Num 0))
   \<and> parseTone doc ''#12'' = Some (rgbToOklch (Num 0) (Num 0) (Num 18))
   \<and> parseTone doc ''ff69b'' = Some (rgbToOklch (Num 15) (Num 246) (Num 155))
   \<and> parseTone doc ''oklch(0.5 . 30)'' = Some \<lparr>oklch_l = Num 0.5, oklch_c = NaN, oklch_h = Num 30\<rparr>"
proof (intro conjI)
  have "hexToRgb ''#xyz'' = (0, 0, 0)"
    by (simp add: hexToRgb_def parseInt16_def shiftByte_def string_defs Let_def)
  thus "parseTone doc ''#xyz'' = Some (rgbToOklch (Num 0) (Num 0) (Num 0))"
    by (simp add: parseTone_def string_defs)
  have "hexToRgb ''#12'' = (0, 0, 18)"
    by (simp add: hexToRgb_def parseInt16_def toDouble_nat_def shiftByte_def trunc_def string_defs Let_def)
  thus "parseTone doc ''#12'' = Some (rgbToOklch (Num 0) (Num 0) (Num 18))"
    by (simp add: parseTone_def string_defs)
  have "hexToRgb ''#ff69b'' = (15, 246, 155)"
    by (simp add: hexToRgb_def parseInt16_def toDouble_nat_def shiftByte_def trunc_def string_defs Let_def)
  thus "parseTone doc ''ff69b'' = Some (rgbToOklch (Num 15) (Num 246) (Num 155))"
    by (simp add: parseTone_def string_defs)
  show "parseTone doc ''oklch(0.5 . 30)'' = Some \<lparr>oklch_l = Num 0.5, oklch_c = NaN, oklch_h = Num 30\<rparr>"
    by (rule parseTone_dot)
qed

lemma parseTone_hash_prefix:
  assumes "startsWith (trim tone) ''#''"
  shows "parseTone doc tone \<noteq> None"
proof -
  from assms obtain r where r: "trim tone = CHR ''#'' # r"
    by (cases "trim tone") (simp_all add: startsWith_def)
  have "\<not> isAsciiLetter CHR ''#''" by (simp add: isAsciiLetter_def charCode_def)
  with r assms show ?thesis
    by (simp add: parseTone_def Let_def split: prod.splits)
qed

text \<open>
  C5. The chroma of the palette entries is not always at most 0.37. The cap is
  \<open>Math.min(c, 0.37)\<close>, which is \<open>NaN\<close> when \<open>c\<close> is; the literal \<open>oklch(0.5 . 30)\<close>, which
  \<open>parseTone\<close> accepts although its chroma is a lone dot, is a tone of chroma \<open>NaN\<close>, and
  \<open>hashToColors\<close> returns two colors of chroma \<open>NaN\<close> from it, which is not at most 0.37.
  (For tones of numeric chroma the cap holds: lemma \<open>hashToColors_chroma\<close>.)
\<close>

theorem hashToColors_chroma_nan:
  "map_sum id (map oklch_c) (hashToColors None ''vitalik.eth'' (Some [''oklch(0.5 . 30)'']) 2)
   = Inr [NaN, NaN]
   \<and> \<not> (NaN \<le> Num 0.37)"
proof -
  have nan: "\<not> (NaN \<le> Num 0.37)" by simp
  have "map_sum id (map oklch_c) (hashToColors None ''vitalik.eth'' (Some [''oklch(0.5 . 30)'']) 2)
        = Inr [NaN, NaN]"
  proof -
    define t0 where "t0 = \<lparr>oklch_l = Num 0.5, oklch_c = NaN, oklch_h = Num 30\<rparr>"
    define sds where "sds = hashToSeeds ''vitalik.eth'' (2 * 3)"
    have p: "toneListOf None (Some [''oklch(0.5 . 30)'']) = [t0]"
      by (simp add: parsedTones_def parseTone_dot t0_def)
    have "\<exists>xs. arrayFrom (\<lambda>i. generateColor (seedAt sds (i * 3)) (seedAt sds (i * 3 + 1))
                    (seedAt sds (i * 3 + 2)) (Some [t0]) (i > 0) None) [0..<2] = Inr xs
            \<and> length xs = length [0..<2::nat]
            \<and> (\<forall>col \<in> set xs. oklch_c col = NaN)"
    proof (rule arrayFrom_Inr)
      fix i :: nat assume i: "i \<in> set [0..<2]"
      from hashToColors_seeds [OF i, of 0 "''vitalik.eth''"] obtain x
        where x: "seedAt sds (i * 3) = Num x" "0 \<le> x" "x < 1"
        by (auto simp add: sds_def)
      have "[t0] \<noteq> []" by simp
      from generateColor_with_tones
             [OF x(2,3) this, of "seedAt sds (i * 3 + 1)" "seedAt sds (i * 3 + 2)" "i > 0" None]
      obtain tone col where tc: "tone \<in> set [t0]"
        "generateColor (Num x) (seedAt sds (i * 3 + 1)) (seedAt sds (i * 3 + 2)) (Some [t0]) (i > 0) None
           = Inr col"
        "oklch_c col = Math_min (toneChroma (i > 0) tone (seedAt sds (i * 3 + 2))) (Num 0.37)"
        by blast
      from tc(1) have "tone = t0" by simp
      note tc(2) tc(3) [unfolded this]
      moreover have "Math_min (toneChroma (i > 0) t0 (seedAt sds (i * 3 + 2))) (Num 0.37) = NaN"
        by (simp add: t0_def)
      ultimately show "\<exists>col. generateColor (seedAt sds (i * 3)) (seedAt sds (i * 3 + 1))
                    (seedAt sds (i * 3 + 2)) (Some [t0]) (i > 0) None = Inr col \<and> oklch_c col = NaN"
        using x(1) by simp
    qed
    then obtain xs where xs:
      "arrayFrom (\<lambda>i. generateColor (seedAt sds (i * 3)) (seedAt sds (i * 3 + 1))
                    (seedAt sds (i * 3 + 2)) (Some [t0]) (i > 0) None) [0..<2] = Inr xs"
      "length xs = 2" "\<forall>col \<in> set xs. oklch_c col = NaN"
      by auto
    from xs(2) obtain a b where ab: "xs = [a, b]"
      by (auto simp add: length_Suc_conv numeral_2_eq_2)
    with xs(3) have "map oklch_c xs = [NaN, NaN]" by simp
    moreover from p have "hashToColors None ''vitalik.eth'' (Some [''oklch(0.5 . 30)'']) 2 = Inr xs"
      using hashToColors_toned [of None "Some [''oklch(0.5 . 30)'']" "''vitalik.eth''" 2] xs(1)
      by (simp add: sds_def)
    ultimately show ?thesis by simp
  qed
  with nan show ?thesis by simp
qed



section \<open>The dither renderer\<close>

lemma upTo_int: "upTo (int m) = map int [0..<m]"
  by (simp add: upTo_def)

lemma upTo_mem: "k \<in> set (upTo n) \<longleftrightarrow> 0 \<le> k \<and> k < n"
proof
  assume "k \<in> set (upTo n)"
  then obtain j where "j < nat n" "k = int j" by (auto simp add: upTo_def)
  thus "0 \<le> k \<and> k < n" by simp
next
  assume "0 \<le> k \<and> k < n"
  hence "nat k < nat n" "k = int (nat k)" by simp_all
  hence "k \<in> int ` {0..<nat n}" by (metis atLeastLessThan_iff imageI zero_le)
  thus "k \<in> set (upTo n)" by (simp add: upTo_def)
qed

lemma cellWrites_pixel:
  assumes "idx \<in> set (cellWrites sp ds gx gy)"
  shows "\<exists>x y. 0 \<le> x \<and> x < sp \<and> 0 \<le> y \<and> y < sp \<and> idx = (y * sp + x) * 4"
proof -
  from assms obtain px py where p:
    "\<not> ((gx - 1) * ds + px < 0 \<or> (gy - 1) * ds + py < 0
        \<or> (gx - 1) * ds + px \<ge> sp \<or> (gy - 1) * ds + py \<ge> sp)"
    "idx = (((gy - 1) * ds + py) * sp + ((gx - 1) * ds + px)) * 4"
    by (auto simp add: cellWrites_def Let_def split: if_splits)
  define x where "x = (gx - 1) * ds + px"
  define y where "y = (gy - 1) * ds + py"
  from p have "0 \<le> x \<and> x < sp \<and> 0 \<le> y \<and> y < sp \<and> idx = (y * sp + x) * 4"
    by (simp add: x_def y_def)
  thus ?thesis by blast
qed

lemma pixel_index_bound:
  fixes x y sp :: int
  assumes "0 \<le> x" "x < sp" "0 \<le> y" "y < sp"
  shows "0 \<le> y * sp + x \<and> y * sp + x < sp * sp"
proof -
  from assms have "y * sp \<le> (sp - 1) * sp" by (intro mult_right_mono) simp_all
  hence "y * sp + x < (sp - 1) * sp + sp" using assms by linarith
  moreover have "(sp - 1) * sp + sp = sp * sp" by (simp add: algebra_simps)
  moreover from assms have "0 \<le> y * sp" by simp
  ultimately show ?thesis using assms by simp
qed

lemma drawWrites_cell:
  assumes "idx \<in> set (drawWrites anim sds ph cosA sinA fo sp ds gs)"
  shows "\<exists>gx gy. gx \<in> set (upTo gs) \<and> gy \<in> set (upTo gs) \<and> idx \<in> set (cellWrites sp ds gx gy)"
  using assms by (auto simp add: drawWrites_def split: if_splits)

lemma drawWrites_pixel:
  assumes "idx \<in> set (drawWrites anim sds ph cosA sinA fo sp ds gs)"
  shows "\<exists>j. 0 \<le> j \<and> j < sp * sp \<and> idx = j * 4"
proof -
  from drawWrites_cell [OF assms] obtain gx gy where "idx \<in> set (cellWrites sp ds gx gy)"
    by blast
  from cellWrites_pixel [OF this] obtain x y
    where xy: "0 \<le> x" "x < sp" "0 \<le> y" "y < sp" "idx = (y * sp + x) * 4"
    by blast
  from pixel_index_bound [OF xy(1-4)] xy(5) show ?thesis by blast
qed

lemma createImageData_length:
  assumes "createImageData sp sp = Inr d"
  shows "int (length d) = 4 * (sp * sp)" and "sp \<noteq> 0"
proof -
  from assms show "sp \<noteq> 0" by (auto simp add: createImageData_def split: if_splits)
  from assms have "length d = 4 * nat \<bar>sp\<bar> * nat \<bar>sp\<bar>"
    by (auto simp add: createImageData_def split: if_splits)
  hence "int (length d) = 4 * (\<bar>sp\<bar> * \<bar>sp\<bar>)" by simp
  thus "int (length d) = 4 * (sp * sp)" by (simp only: abs_mult_self_eq)
qed

lemma length_setByte: "length (setByte d i v) = length d"
  by (simp add: setByte_def)

lemma length_fillPixel: "length (fillPixel col d i) = length d"
  by (cases col) (simp add: fillPixel_def length_setByte)

lemma length_paintPixel: "length (paintPixel col d i) = length d"
  by (cases col) (simp add: paintPixel_def length_setByte)

lemma length_foldl_fillPixel: "length (foldl (fillPixel col) d is) = length d"
  by (induction "is" arbitrary: d) (simp_all add: length_fillPixel)

lemma length_foldl_paintPixel: "length (foldl (paintPixel col) d is) = length d"
  by (induction "is" arbitrary: d) (simp_all add: length_paintPixel)

lemma setByte_nat: "i < length d \<Longrightarrow> v \<le> 255 \<Longrightarrow> setByte d (int i) v = d[i := v]"
  by (simp add: setByte_def)


lemma setByte_pixel:
  assumes "length d = 4 * n" "j < n" "a < 4" "v \<le> 255"
  shows "setByte d (int j * 4 + int a) v = d[4 * j + a := v]"
proof -
  have "int j * 4 + int a = int (4 * j + a)" by simp
  moreover from assms have "4 * j + a < length d" by simp
  ultimately show ?thesis using assms(4) by (simp only: setByte_nat)
qed

lemma fillPixel_update:
  assumes "length d = 4 * n" "j < n" "r \<le> 255" "g \<le> 255" "b \<le> 255"
  shows "fillPixel (r, g, b) d (int j * 4)
         = d[4 * j := r, 4 * j + 1 := g, 4 * j + 2 := b, 4 * j + 3 := 255]"
proof -
  have "setByte d (int j * 4) r = d[4 * j := r]"
    using setByte_pixel [OF assms(1,2), of 0 r] assms(3) by simp
  moreover have "setByte (d[4 * j := r]) (int j * 4 + 1) g = d[4 * j := r, 4 * j + 1 := g]"
    using setByte_pixel [of "d[4 * j := r]" n j 1 g] assms by simp
  moreover have "setByte (d[4 * j := r, 4 * j + 1 := g]) (int j * 4 + 2) b
                 = d[4 * j := r, 4 * j + 1 := g, 4 * j + 2 := b]"
    using setByte_pixel [of "d[4 * j := r, 4 * j + 1 := g]" n j 2 b] assms by simp
  moreover have "setByte (d[4 * j := r, 4 * j + 1 := g, 4 * j + 2 := b]) (int j * 4 + 3) 255
                 = d[4 * j := r, 4 * j + 1 := g, 4 * j + 2 := b, 4 * j + 3 := 255]"
    using setByte_pixel [of "d[4 * j := r, 4 * j + 1 := g, 4 * j + 2 := b]" n j 3 255] assms by simp
  ultimately show ?thesis by (simp add: fillPixel_def)
qed

lemma paintPixel_update:
  assumes "length d = 4 * n" "j < n" "r \<le> 255" "g \<le> 255" "b \<le> 255"
  shows "paintPixel (r, g, b) d (int j * 4) = d[4 * j := r, 4 * j + 1 := g, 4 * j + 2 := b]"
proof -
  have "setByte d (int j * 4) r = d[4 * j := r]"
    using setByte_pixel [OF assms(1,2), of 0 r] assms(3) by simp
  moreover have "setByte (d[4 * j := r]) (int j * 4 + 1) g = d[4 * j := r, 4 * j + 1 := g]"
    using setByte_pixel [of "d[4 * j := r]" n j 1 g] assms by simp
  moreover have "setByte (d[4 * j := r, 4 * j + 1 := g]) (int j * 4 + 2) b
                 = d[4 * j := r, 4 * j + 1 := g, 4 * j + 2 := b]"
    using setByte_pixel [of "d[4 * j := r, 4 * j + 1 := g]" n j 2 b] assms by simp
  ultimately show ?thesis by (simp add: paintPixel_def)
qed

lemma pixelAt_fillPixel:
  assumes "length d = 4 * n" "j < n" "k < n" "r \<le> 255" "g \<le> 255" "b \<le> 255"
  shows "pixelAt (fillPixel (r, g, b) d (int j * 4)) k
         = (if k = j then (r, g, b, 255) else pixelAt d k)"
proof -
  from assms have "4 * j + 3 < length d" "4 * k + 3 < length d" by simp_all
  thus ?thesis
    unfolding fillPixel_update [OF assms(1,2,4,5,6)] pixelAt_def
    by (auto simp add: nth_list_update)
qed

lemma pixelAt_paintPixel:
  assumes "length d = 4 * n" "j < n" "k < n" "r \<le> 255" "g \<le> 255" "b \<le> 255"
  shows "pixelAt (paintPixel (r, g, b) d (int j * 4)) k
         = (if k = j then (r, g, b, d ! (4 * j + 3)) else pixelAt d k)"
proof -
  from assms have "4 * j + 3 < length d" "4 * k + 3 < length d" by simp_all
  thus ?thesis
    unfolding paintPixel_update [OF assms(1,2,4,5,6)] pixelAt_def
    by (auto simp add: nth_list_update)
qed


lemma prefill_pixels:
  assumes "length d = 4 * n" "m \<le> n" "r \<le> 255" "g \<le> 255" "b \<le> 255"
  shows "length (foldl (fillPixel (r, g, b)) d (map (\<lambda>k. k * 4) (upTo (int m)))) = 4 * n
         \<and> (\<forall>k < m. pixelAt (foldl (fillPixel (r, g, b)) d (map (\<lambda>k. k * 4) (upTo (int m)))) k
                      = (r, g, b, 255))"
  using assms(2)
proof (induction m)
  case 0
  then show ?case by (simp add: upTo_def assms(1))
next
  case (Suc m)
  define d' where "d' = foldl (fillPixel (r, g, b)) d (map (\<lambda>k. k * 4) (upTo (int m)))"
  from Suc have len: "length d' = 4 * n" and old: "\<forall>k < m. pixelAt d' k = (r, g, b, 255)"
    by (simp_all add: d'_def)
  have step: "foldl (fillPixel (r, g, b)) d (map (\<lambda>k. k * 4) (upTo (int (Suc m))))
              = fillPixel (r, g, b) d' (int m * 4)"
    unfolding upTo_int d'_def by simp
  from Suc.prems have mn: "m < n" by simp
  have "\<forall>k < Suc m. pixelAt (fillPixel (r, g, b) d' (int m * 4)) k = (r, g, b, 255)"
  proof (intro allI impI)
    fix k assume "k < Suc m"
    with mn have kn: "k < n" by simp
    from pixelAt_fillPixel [OF len mn kn assms(3,4,5)] old \<open>k < Suc m\<close>
    show "pixelAt (fillPixel (r, g, b) d' (int m * 4)) k = (r, g, b, 255)"
      by (cases "k = m") simp_all
  qed
  with len show ?case by (simp only: step length_fillPixel)
qed

lemma paint_pixels:
  assumes "length d = 4 * n"
    and "\<forall>k < n. d ! (4 * k + 3) = 255"
    and "\<forall>idx \<in> set ws. \<exists>j. 0 \<le> j \<and> j < int n \<and> idx = j * 4"
    and "r \<le> 255" "g \<le> 255" "b \<le> 255"
  shows "length (foldl (paintPixel (r, g, b)) d ws) = 4 * n
         \<and> (\<forall>k < n. pixelAt (foldl (paintPixel (r, g, b)) d ws) k
                      = (if int k * 4 \<in> set ws then (r, g, b, 255) else pixelAt d k))"
  using assms(1,2,3)
proof (induction ws arbitrary: d)
  case Nil
  then show ?case by simp
next
  case (Cons idx ws)
  from Cons.prems(3) obtain j where j: "0 \<le> j" "j < int n" "idx = j * 4" by auto
  define i where "i = nat j"
  from j have i: "i < n" "idx = int i * 4" by (simp_all add: i_def)
  define d' where "d' = paintPixel (r, g, b) d idx"
  have len: "length d' = 4 * n" by (simp add: d'_def length_paintPixel Cons.prems(1))
  have px: "\<forall>k < n. pixelAt d' k = (if k = i then (r, g, b, 255) else pixelAt d k)"
  proof (intro allI impI)
    fix k assume kn: "k < n"
    from Cons.prems(2) i(1) have "d ! (4 * i + 3) = 255" by simp
    with pixelAt_paintPixel [OF Cons.prems(1) i(1) kn assms(4,5,6)]
    show "pixelAt d' k = (if k = i then (r, g, b, 255) else pixelAt d k)"
      by (simp add: d'_def i(2))
  qed
  have alpha: "\<forall>k < n. d' ! (4 * k + 3) = 255"
  proof (intro allI impI)
    fix k assume kn: "k < n"
    from px kn Cons.prems(2) show "d' ! (4 * k + 3) = 255"
      by (cases "k = i") (auto simp add: pixelAt_def)
  qed
  from Cons.prems(3) have ws: "\<forall>idx \<in> set ws. \<exists>j. 0 \<le> j \<and> j < int n \<and> idx = j * 4" by simp
  from Cons.IH [OF len alpha ws]
  have ih: "length (foldl (paintPixel (r, g, b)) d' ws) = 4 * n"
    "\<forall>k < n. pixelAt (foldl (paintPixel (r, g, b)) d' ws) k
               = (if int k * 4 \<in> set ws then (r, g, b, 255) else pixelAt d' k)"
    by simp_all
  have "\<forall>k < n. pixelAt (foldl (paintPixel (r, g, b)) d' ws) k
               = (if int k * 4 \<in> set (idx # ws) then (r, g, b, 255) else pixelAt d k)"
  proof (intro allI impI)
    fix k assume kn: "k < n"
    have "int k * 4 = idx \<longleftrightarrow> k = i" by (auto simp add: i(2))
    with ih(2) px kn
    show "pixelAt (foldl (paintPixel (r, g, b)) d' ws) k
            = (if int k * 4 \<in> set (idx # ws) then (r, g, b, 255) else pixelAt d k)"
      by simp
  qed
  with ih(1) show ?case by (simp add: d'_def)
qed

lemma shiftByte_le: "shiftByte n k \<le> 255"
proof -
  have "signed_drop_bit k (ToInt32 n) AND 255 \<le> (255 :: 32 word)" by (rule word_and_le1)
  hence "unat (signed_drop_bit k (ToInt32 n) AND 255) \<le> unat (255 :: 32 word)"
    by (simp only: word_le_nat_alt)
  thus ?thesis by (simp add: shiftByte_def)
qed

lemma dither_hexToRgb_bytes:
  "\<exists>r g b. dither_hexToRgb hex = (r, g, b) \<and> r \<le> 255 \<and> g \<le> 255 \<and> b \<le> 255"
  by (simp add: dither_hexToRgb_def Let_def shiftByte_le)

lemma encoded_bytes: "\<exists>r g b. encoded col = (r, g, b) \<and> r \<le> 255 \<and> g \<le> 255 \<and> b \<le> 255"
  by (rule dither_hexToRgb_bytes)

lemma frameWrites_pixel:
  assumes "idx \<in> set (frameWrites opts su ph)"
  shows "\<exists>j. 0 \<le> j \<and> j < sizePx su * sizePx su \<and> idx = j * 4"
  using assms unfolding frameWrites_def Let_def by (rule drawWrites_pixel)

lemma draw_frame:
  assumes sp: "sizePx su \<noteq> 0"
    and a: "colA su = (ra, ga, ba)" "ra \<le> 255" "ga \<le> 255" "ba \<le> 255"
    and b: "colB su = (rb, gb, bb)" "rb \<le> 255" "gb \<le> 255" "bb \<le> 255"
  shows "\<exists>d pre.
           draw opts su ph = Inr d
           \<and> int (length d) = 4 * (sizePx su * sizePx su)
           \<and> length pre = length d
           \<and> (\<forall>k < nat (sizePx su * sizePx su). pixelAt pre k = opaque (colB su))
           \<and> d = foldl (paintPixel (colA su)) pre (frameWrites opts su ph)
           \<and> (\<forall>k < nat (sizePx su * sizePx su).
                 pixelAt d k = (if int k * 4 \<in> set (frameWrites opts su ph)
                                then opaque (colA su) else opaque (colB su)))"
proof -
  define n where "n = nat (sizePx su * sizePx su)"
  have nn: "int n = sizePx su * sizePx su" by (simp add: n_def)
  from sp obtain d0 where d0: "createImageData (sizePx su) (sizePx su) = Inr d0"
    by (simp add: createImageData_def)
  from createImageData_length(1) [OF d0] nn have len0: "length d0 = 4 * n" by linarith
  define pre where
    "pre = foldl (fillPixel (colB su)) d0 (map (\<lambda>k. k * 4) (upTo (sizePx su * sizePx su)))"
  define ws where "ws = frameWrites opts su ph"
  have dr: "draw opts su ph = Inr (foldl (paintPixel (colA su)) pre ws)"
    by (simp add: draw_def d0 Let_def pre_def ws_def)
  from prefill_pixels [OF len0 order_refl b(2,3,4)]
  have pre: "length pre = 4 * n" "\<forall>k < n. pixelAt pre k = opaque (colB su)"
    by (simp_all add: pre_def b(1) nn opaque_def)
  from pre(2) have alpha: "\<forall>k < n. pre ! (4 * k + 3) = 255"
    by (simp add: pixelAt_def opaque_def b(1))
  have w: "\<forall>idx \<in> set ws. \<exists>j. 0 \<le> j \<and> j < int n \<and> idx = j * 4"
    unfolding ws_def nn using frameWrites_pixel by blast
  from paint_pixels [OF pre(1) alpha w a(2,3,4)]
  have fin: "length (foldl (paintPixel (colA su)) pre ws) = 4 * n"
    "\<forall>k < n. pixelAt (foldl (paintPixel (colA su)) pre ws) k
               = (if int k * 4 \<in> set ws then opaque (colA su) else pixelAt pre k)"
    by (simp_all add: a(1) opaque_def)
  from fin(2) pre(2)
  have px: "\<forall>k < n. pixelAt (foldl (paintPixel (colA su)) pre ws) k
               = (if int k * 4 \<in> set ws then opaque (colA su) else opaque (colB su))"
    by simp
  from fin(1) nn have "int (length (foldl (paintPixel (colA su)) pre ws)) = 4 * (sizePx su * sizePx su)"
    by simp
  with dr pre fin(1) px show ?thesis unfolding n_def ws_def by (metis (no_types, lifting))
qed

lemma ditherSetup_palette:
  assumes "colors opts \<noteq> []"
  shows "\<exists>su. ditherSetup window opts = Inr su
           \<and> colA su = encoded (colors opts ! 0)
           \<and> colB su = encoded (colors opts ! nat (min 1 (int (length (colors opts)) - 1)))
           \<and> sizePx su = pixelSize window opts"
proof -
  from assms have l: "0 < length (colors opts)" by simp
  hence "colorAt (colors opts) 0 = Some (colors opts ! 0)" by (simp add: colorAt_def)
  moreover from l have "colorAt (colors opts) (min 1 (int (length (colors opts)) - 1))
        = Some (colors opts ! nat (min 1 (int (length (colors opts)) - 1)))"
    by (simp add: colorAt_def)
  ultimately show ?thesis by (simp add: ditherSetup_def paletteRgb_def Let_def)
qed

lemma renderDither_static:
  assumes "ditherSetup window opts = Inr su" "\<not> animated opts" "draw opts su (Num 0) = Inr d"
  shows "renderDither window cv opts
         = Inr (None, (sizeCanvas cv (real_of_int (sizePx su)) (size' opts))
                        \<lparr>calls := calls cv @ [PutImageData d]\<rparr>)"
  using assms by (simp add: renderDither_def Let_def sizeCanvas_def)

lemma renderDither_animated:
  assumes "ditherSetup window opts = Inr su" "animated opts"
  shows "renderDither window cv opts
         = Inr (Some CancelAnimationFrame, sizeCanvas cv (real_of_int (sizePx su)) (size' opts))"
  using assms by (simp add: renderDither_def Let_def)


lemma renderDither_static_zero:
  assumes "ditherSetup window opts = Inr su" "\<not> animated opts" "sizePx su = 0"
  shows "renderDither window cv opts = Inl IndexSizeError"
  using assms by (simp add: renderDither_def draw_def createImageData_def Let_def)

lemma renderDither_frame:
  assumes "colors opts \<noteq> []"
  shows "\<exists>su. ditherSetup window opts = Inr su
           \<and> colA su = encoded (colors opts ! 0)
           \<and> colB su = encoded (colors opts ! nat (min 1 (int (length (colors opts)) - 1)))
           \<and> sizePx su = pixelSize window opts
           \<and> (animated opts \<longrightarrow>
                renderDither window cv opts
                  = Inr (Some CancelAnimationFrame,
                         sizeCanvas cv (real_of_int (sizePx su)) (size' opts)))
           \<and> (\<not> animated opts \<and> sizePx su = 0 \<longrightarrow>
                renderDither window cv opts = Inl IndexSizeError)
           \<and> (\<not> animated opts \<and> sizePx su \<noteq> 0 \<longrightarrow>
                (\<exists>d pre.
                   renderDither window cv opts
                     = Inr (None, (sizeCanvas cv (real_of_int (sizePx su)) (size' opts))
                                    \<lparr>calls := calls cv @ [PutImageData d]\<rparr>)
                   \<and> int (length d) = 4 * (sizePx su * sizePx su)
                   \<and> length pre = length d
                   \<and> (\<forall>k < nat (sizePx su * sizePx su). pixelAt pre k = opaque (colB su))
                   \<and> d = foldl (paintPixel (colA su)) pre (frameWrites opts su (Num 0))
                   \<and> (\<forall>k < nat (sizePx su * sizePx su).
                         pixelAt d k = (if int k * 4 \<in> set (frameWrites opts su (Num 0))
                                        then opaque (colA su) else opaque (colB su)))))"
proof -
  from ditherSetup_palette [OF assms, of window] obtain su where su:
    "ditherSetup window opts = Inr su" "colA su = encoded (colors opts ! 0)"
    "colB su = encoded (colors opts ! nat (min 1 (int (length (colors opts)) - 1)))"
    "sizePx su = pixelSize window opts"
    by blast
  from encoded_bytes [of "colors opts ! 0"] su(2) obtain ra ga ba
    where a: "colA su = (ra, ga, ba)" "ra \<le> 255" "ga \<le> 255" "ba \<le> 255" by auto
  from encoded_bytes [of "colors opts ! nat (min 1 (int (length (colors opts)) - 1))"] su(3)
  obtain rb gb bb
    where b: "colB su = (rb, gb, bb)" "rb \<le> 255" "gb \<le> 255" "bb \<le> 255" by auto
  have anim: "animated opts \<longrightarrow>
                renderDither window cv opts
                  = Inr (Some CancelAnimationFrame,
                         sizeCanvas cv (real_of_int (sizePx su)) (size' opts))"
    using renderDither_animated [OF su(1), of cv] by blast
  have zero: "\<not> animated opts \<and> sizePx su = 0 \<longrightarrow>
                renderDither window cv opts = Inl IndexSizeError"
    using renderDither_static_zero [OF su(1), of cv] by blast
  have stat: "\<not> animated opts \<and> sizePx su \<noteq> 0 \<longrightarrow>
                (\<exists>d pre.
                   renderDither window cv opts
                     = Inr (None, (sizeCanvas cv (real_of_int (sizePx su)) (size' opts))
                                    \<lparr>calls := calls cv @ [PutImageData d]\<rparr>)
                   \<and> int (length d) = 4 * (sizePx su * sizePx su)
                   \<and> length pre = length d
                   \<and> (\<forall>k < nat (sizePx su * sizePx su). pixelAt pre k = opaque (colB su))
                   \<and> d = foldl (paintPixel (colA su)) pre (frameWrites opts su (Num 0))
                   \<and> (\<forall>k < nat (sizePx su * sizePx su).
                         pixelAt d k = (if int k * 4 \<in> set (frameWrites opts su (Num 0))
                                        then opaque (colA su) else opaque (colB su))))"
  proof
    assume h: "\<not> animated opts \<and> sizePx su \<noteq> 0"
    hence na: "\<not> animated opts" and nz: "sizePx su \<noteq> 0" by simp_all
    from draw_frame [OF nz a b, of opts "Num 0"] obtain d pre where d:
      "draw opts su (Num 0) = Inr d"
      "int (length d) = 4 * (sizePx su * sizePx su)"
      "length pre = length d"
      "\<forall>k < nat (sizePx su * sizePx su). pixelAt pre k = opaque (colB su)"
      "d = foldl (paintPixel (colA su)) pre (frameWrites opts su (Num 0))"
      "\<forall>k < nat (sizePx su * sizePx su).
         pixelAt d k = (if int k * 4 \<in> set (frameWrites opts su (Num 0))
                        then opaque (colA su) else opaque (colB su))"
      by blast
    from renderDither_static [OF su(1) na d(1), of cv] d(2-6)
    show "\<exists>d pre.
            renderDither window cv opts
              = Inr (None, (sizeCanvas cv (real_of_int (sizePx su)) (size' opts))
                             \<lparr>calls := calls cv @ [PutImageData d]\<rparr>)
            \<and> int (length d) = 4 * (sizePx su * sizePx su)
            \<and> length pre = length d
            \<and> (\<forall>k < nat (sizePx su * sizePx su). pixelAt pre k = opaque (colB su))
            \<and> d = foldl (paintPixel (colA su)) pre (frameWrites opts su (Num 0))
            \<and> (\<forall>k < nat (sizePx su * sizePx su).
                  pixelAt d k = (if int k * 4 \<in> set (frameWrites opts su (Num 0))
                                 then opaque (colA su) else opaque (colB su)))"
      by blast
  qed
  from su anim zero stat show ?thesis by blast
qed

lemma renderDither_palette_entries:
  assumes "colors opts \<noteq> []" "cs \<noteq> []" "cs ! 0 = colors opts ! 0"
    and "cs ! nat (min 1 (int (length cs) - 1))
         = colors opts ! nat (min 1 (int (length (colors opts)) - 1))"
  shows "renderDither window cv (opts\<lparr>colors := cs\<rparr>) = renderDither window cv opts"
proof -
  from assms(1) have c1: "colorAt (colors opts) 0 = Some (colors opts ! 0)"
    "colorAt (colors opts) (min 1 (int (length (colors opts)) - 1))
       = Some (colors opts ! nat (min 1 (int (length (colors opts)) - 1)))"
    by (cases "colors opts"; simp add: colorAt_def)+
  from assms(2) have c2: "colorAt cs 0 = Some (cs ! 0)"
    "colorAt cs (min 1 (int (length cs) - 1)) = Some (cs ! nat (min 1 (int (length cs) - 1)))"
    by (cases cs; simp add: colorAt_def)+
  have s: "ditherSetup window (opts\<lparr>colors := cs\<rparr>) = ditherSetup window opts"
    by (simp add: ditherSetup_def paletteRgb_def c1 c2 assms(3,4) Let_def cong: option.case_cong)
  have f: "\<And>su ph. frameWrites (opts\<lparr>colors := cs\<rparr>) su ph = frameWrites opts su ph"
    by (simp add: frameWrites_def)
  have d: "\<And>su ph. draw (opts\<lparr>colors := cs\<rparr>) su ph = draw opts su ph"
    unfolding draw_def f by (rule refl)
  show ?thesis unfolding renderDither_def s d
    by (cases "ditherSetup window opts") (simp_all add: Let_def)
qed

lemma renderDither_static_length:
  assumes "colors opts \<noteq> []" "\<not> animated opts" "pixelSize window opts \<noteq> 0"
  shows "int (length (renderedImage (renderDither window cv opts)))
         = 4 * (pixelSize window opts * pixelSize window opts)"
proof -
  from renderDither_frame [OF assms(1), of window cv] obtain su where su:
    "sizePx su = pixelSize window opts"
    and st: "\<not> animated opts \<and> sizePx su \<noteq> 0 \<longrightarrow>
                (\<exists>d pre.
                   renderDither window cv opts
                     = Inr (None, (sizeCanvas cv (real_of_int (sizePx su)) (size' opts))
                                    \<lparr>calls := calls cv @ [PutImageData d]\<rparr>)
                   \<and> int (length d) = 4 * (sizePx su * sizePx su)
                   \<and> length pre = length d
                   \<and> (\<forall>k < nat (sizePx su * sizePx su). pixelAt pre k = opaque (colB su))
                   \<and> d = foldl (paintPixel (colA su)) pre (frameWrites opts su (Num 0))
                   \<and> (\<forall>k < nat (sizePx su * sizePx su).
                         pixelAt d k = (if int k * 4 \<in> set (frameWrites opts su (Num 0))
                                        then opaque (colA su) else opaque (colB su))))"
    by blast
  from assms(2,3) su have "\<not> animated opts \<and> sizePx su \<noteq> 0" by simp
  with st obtain d where d:
    "renderDither window cv opts
       = Inr (None, (sizeCanvas cv (real_of_int (sizePx su)) (size' opts))
                      \<lparr>calls := calls cv @ [PutImageData d]\<rparr>)"
    "int (length d) = 4 * (sizePx su * sizePx su)"
    by blast
  from d(1) have "renderedImage (renderDither window cv opts) = d"
    by (simp add: renderedImage_def)
  with d(2) su show ?thesis by simp
qed

text \<open>
  C7 (amended). For every non-animated dither render with a palette of at least 2 colors
  and a bitmap side that is not zero, \<open>renderDither\<close> sizes the canvas, returns no handle
  and puts one buffer of side by side pixels. That buffer is a buffer filled entirely
  with the encoding of palette index 1 at full alpha, over which the encoding of palette
  index 0 is stored at the indices that the cell loops of the frame write. So a pixel has
  the color of index 0 when the cell loops write it and the color of index 1 otherwise,
  and the buffer holds at most two distinct colors.
\<close>

theorem static_dither_two_tone:
  assumes "2 \<le> length (colors opts)" "\<not> animated opts" "pixelSize window opts \<noteq> 0"
  shows "\<exists>su d pre.
           ditherSetup window opts = Inr su
           \<and> renderDither window cv opts
               = Inr (None, (sizeCanvas cv (real_of_int (pixelSize window opts)) (size' opts))
                              \<lparr>calls := calls cv @ [PutImageData d]\<rparr>)
           \<and> int (length d) = 4 * (pixelSize window opts * pixelSize window opts)
           \<and> length pre = length d
           \<and> (\<forall>k < nat (pixelSize window opts * pixelSize window opts).
                 pixelAt pre k = opaque (encoded (colors opts ! 1)))
           \<and> d = foldl (paintPixel (encoded (colors opts ! 0))) pre (frameWrites opts su (Num 0))
           \<and> (\<forall>k < nat (pixelSize window opts * pixelSize window opts).
                 pixelAt d k = (if int k * 4 \<in> set (frameWrites opts su (Num 0))
                                then opaque (encoded (colors opts ! 0))
                                else opaque (encoded (colors opts ! 1))))"
proof -
  from assms(1) have ne: "colors opts \<noteq> []" by auto
  from assms(1) have i1: "nat (min 1 (int (length (colors opts)) - 1)) = 1" by simp
  from renderDither_frame [OF ne, of window cv] obtain su where su:
    "ditherSetup window opts = Inr su" "colA su = encoded (colors opts ! 0)"
    "colB su = encoded (colors opts ! 1)" "sizePx su = pixelSize window opts"
    and st: "\<not> animated opts \<and> sizePx su \<noteq> 0 \<longrightarrow>
                (\<exists>d pre.
                   renderDither window cv opts
                     = Inr (None, (sizeCanvas cv (real_of_int (sizePx su)) (size' opts))
                                    \<lparr>calls := calls cv @ [PutImageData d]\<rparr>)
                   \<and> int (length d) = 4 * (sizePx su * sizePx su)
                   \<and> length pre = length d
                   \<and> (\<forall>k < nat (sizePx su * sizePx su). pixelAt pre k = opaque (colB su))
                   \<and> d = foldl (paintPixel (colA su)) pre (frameWrites opts su (Num 0))
                   \<and> (\<forall>k < nat (sizePx su * sizePx su).
                         pixelAt d k = (if int k * 4 \<in> set (frameWrites opts su (Num 0))
                                        then opaque (colA su) else opaque (colB su))))"
    unfolding i1 by blast
  from assms(2,3) su(4) have "\<not> animated opts \<and> sizePx su \<noteq> 0" by simp
  with st su(1) show ?thesis unfolding su(2,3,4) by blast
qed

theorem static_dither_two_tone_witness:
  "\<exists>d.
     renderDither None \<lparr>width = 300, height = 150, style_width = None, style_height = None, calls = []\<rparr>
       \<lparr>size' = 2,
        colors = [\<lparr>oklch_l = Num 0.6, oklch_c = Num 0.2, oklch_h = Num 30\<rparr>,
                  \<lparr>oklch_l = Num 0.3, oklch_c = Num 0.1, oklch_h = Num 30\<rparr>],
        animated = False, seeds = [Num 0, Num 0, Num 0, Num 0], dotScale = Some 1\<rparr>
       = Inr (None, \<lparr>width = 2, height = 2, style_width = Some 2, style_height = Some 2,
                     calls = [PutImageData d]\<rparr>)
     \<and> length d = 16
     \<and> pixels d
         = [opaque (encoded \<lparr>oklch_l = Num 0.6, oklch_c = Num 0.2, oklch_h = Num 30\<rparr>),
            opaque (encoded \<lparr>oklch_l = Num 0.6, oklch_c = Num 0.2, oklch_h = Num 30\<rparr>),
            opaque (encoded \<lparr>oklch_l = Num 0.6, oklch_c = Num 0.2, oklch_h = Num 30\<rparr>),
            opaque (encoded \<lparr>oklch_l = Num 0.3, oklch_c = Num 0.1, oklch_h = Num 30\<rparr>)]"
proof -
  let ?cv = "\<lparr>width = 300, height = 150, style_width = None, style_height = None, calls = []\<rparr>"
  let ?c0 = "\<lparr>oklch_l = Num 0.6, oklch_c = Num 0.2, oklch_h = Num 30\<rparr>"
  let ?c1 = "\<lparr>oklch_l = Num 0.3, oklch_c = Num 0.1, oklch_h = Num 30\<rparr>"
  let ?opts = "\<lparr>size' = 2, colors = [?c0, ?c1],
        animated = False, seeds = [Num 0, Num 0, Num 0, Num 0], dotScale = Some 1\<rparr>"
  have s: "pixelSize None ?opts = 2"
    by (simp add: getDevicePixelRatio_def round_half_up_def)
  have h: "2 \<le> length (colors ?opts)" "\<not> animated ?opts" "pixelSize None ?opts \<noteq> 0"
    by (simp_all add: getDevicePixelRatio_def round_half_up_def)
  from static_dither_two_tone [OF h, of ?cv] obtain su d where su:
    "ditherSetup None ?opts = Inr su"
    and r: "renderDither None ?cv ?opts
             = Inr (None, (sizeCanvas ?cv (real_of_int (pixelSize None ?opts)) (size' ?opts))
                            \<lparr>calls := calls ?cv @ [PutImageData d]\<rparr>)"
    and len: "int (length d) = 4 * (pixelSize None ?opts * pixelSize None ?opts)"
    and px: "\<forall>k < nat (pixelSize None ?opts * pixelSize None ?opts).
                 pixelAt d k = (if int k * 4 \<in> set (frameWrites ?opts su (Num 0))
                                then opaque (encoded (colors ?opts ! 0))
                                else opaque (encoded (colors ?opts ! 1)))"
    by blast
  from su have su_eq:
    "su = \<lparr>sizePx = 2, dotScalePx = 1, colA = encoded ?c0, colB = encoded ?c1,
           baseAngle = Num 0, falloff = Num 0.55, gridSize = 4\<rparr>"
    by (simp add: ditherSetup_def paletteRgb_def colorAt_def getDevicePixelRatio_def
          round_half_up_def seedAt_def Math_PI_def Let_def)
  have u: "upTo 4 = [0, 1, 2, 3]" "upTo 1 = [0]" by code_simp+
  have fw: "frameWrites ?opts su (Num 0) = [0, 4, 8]"
    unfolding su_eq
    by (simp add: frameWrites_def drawWrites_def u cellT_def bayer_def BAYER8_def cellWrites_def
          Let_def)
  from len have l16: "length d = 16" unfolding s by simp
  from px have p: "\<forall>k < 4. pixelAt d k = (if int k * 4 \<in> {0, 4, 8} then opaque (encoded ?c0)
                                           else opaque (encoded ?c1))"
    unfolding s fw by simp
  have "pixelAt d 0 = opaque (encoded ?c0)" "pixelAt d 1 = opaque (encoded ?c0)"
    "pixelAt d 2 = opaque (encoded ?c0)" "pixelAt d 3 = opaque (encoded ?c1)"
    using p by simp_all
  moreover have "[0..<(4::nat)] = [0, 1, 2, 3]" by code_simp
  hence "pixels d = [pixelAt d 0, pixelAt d 1, pixelAt d 2, pixelAt d 3]"
    by (simp add: pixels_def l16)
  ultimately have "pixels d = [opaque (encoded ?c0), opaque (encoded ?c0), opaque (encoded ?c0),
                                opaque (encoded ?c1)]"
    by simp
  with r l16 show ?thesis unfolding s by (simp add: sizeCanvas_def)
qed


text \<open>Two distinct colors are not always there: a render of size 1 has a single pixel,
  hence a single color.\<close>

theorem static_dither_two_tone_counterexample:
  "card (set (pixels (renderedImage
     (renderDither None \<lparr>width = 300, height = 150, style_width = None, style_height = None, calls = []\<rparr>
        \<lparr>size' = 1,
         colors = [\<lparr>oklch_l = Num 0.6, oklch_c = Num 0.2, oklch_h = Num 30\<rparr>,
                   \<lparr>oklch_l = Num 0.3, oklch_c = Num 0.1, oklch_h = Num 30\<rparr>],
         animated = False, seeds = [Num 0.1, Num 0.2, Num 0.3, Num 0.4], dotScale = None\<rparr>)))) = 1"
proof -
  let ?cv = "\<lparr>width = 300, height = 150, style_width = None, style_height = None, calls = []\<rparr>"
  let ?opts = "\<lparr>size' = 1,
         colors = [\<lparr>oklch_l = Num 0.6, oklch_c = Num 0.2, oklch_h = Num 30\<rparr>,
                   \<lparr>oklch_l = Num 0.3, oklch_c = Num 0.1, oklch_h = Num 30\<rparr>],
         animated = False, seeds = [Num 0.1, Num 0.2, Num 0.3, Num 0.4], dotScale = None\<rparr>"
  have s: "pixelSize None ?opts = 1"
    by (simp add: getDevicePixelRatio_def round_half_up_def)
  have "colors ?opts \<noteq> []" "\<not> animated ?opts" "pixelSize None ?opts \<noteq> 0"
    by (simp_all add: getDevicePixelRatio_def round_half_up_def)
  from renderDither_static_length [OF this, of ?cv]
  have "length (renderedImage (renderDither None ?cv ?opts)) = 4"
    unfolding s by simp
  hence "pixels (renderedImage (renderDither None ?cv ?opts))
         = [pixelAt (renderedImage (renderDither None ?cv ?opts)) 0]"
    by (simp add: pixels_def)
  thus ?thesis by simp
qed

text \<open>
  C9. Every index that the cell loops of a frame of the dither renderer write lies within
  the buffer of the frame: it is the index of a pixel \<open>(x, y)\<close> with
  \<open>0 \<le> x, y < sizePx\<close>, so the three bytes written, at \<open>idx\<close>, \<open>idx + 1\<close> and \<open>idx + 2\<close>,
  are below the length of the buffer that \<open>createImageData\<close> returned. This holds for
  every cell, the cells of the padding ring included.
\<close>

theorem dither_writes_in_bounds:
  assumes "idx \<in> set (drawWrites anim sds ph cosA sinA fo sp ds gs)"
  shows "(\<exists>x y. 0 \<le> x \<and> x < sp \<and> 0 \<le> y \<and> y < sp \<and> idx = (y * sp + x) * 4)
         \<and> 0 \<le> idx \<and> idx + 2 < 4 * (sp * sp)
         \<and> (\<forall>d. createImageData sp sp = Inr d \<longrightarrow> idx + 2 < int (length d))"
proof -
  from drawWrites_cell [OF assms] obtain gx gy where "idx \<in> set (cellWrites sp ds gx gy)"
    by blast
  from cellWrites_pixel [OF this] obtain x y
    where xy: "0 \<le> x" "x < sp" "0 \<le> y" "y < sp" "idx = (y * sp + x) * 4"
    by blast
  from pixel_index_bound [OF xy(1-4)] xy(5) have b: "0 \<le> idx" "idx + 2 < 4 * (sp * sp)"
    by simp_all
  moreover from b(2) createImageData_length(1)
  have "\<forall>d. createImageData sp sp = Inr d \<longrightarrow> idx + 2 < int (length d)" by auto
  ultimately show ?thesis using xy by blast
qed

lemma drawWrites_member:
  assumes "gy \<in> set (upTo gs)" "gx \<in> set (upTo gs)"
    and "\<not> cellT anim sds ph cosA sinA fo gs gx gy > bayer gy gx"
    and "idx \<in> set (cellWrites sp ds gx gy)"
  shows "idx \<in> set (drawWrites anim sds ph cosA sinA fo sp ds gs)"
  using assms unfolding drawWrites_def by auto

theorem dither_writes_in_bounds_witness:
  "8 \<in> set (drawWrites False [Num 0, Num 0, Num 0, Num 0] (Num 0) (Num 1) (Num 0) (Num 0.55) 2 1 4)
   \<and> (8 :: int) + 2 < 4 * (2 * 2)
   \<and> createImageData 2 2 = Inr (replicate 16 0)"
proof -
  have u: "upTo 4 = [0, 1, 2, 3]" "upTo 1 = [0]" by code_simp+
  have t: "\<not> cellT False [Num 0, Num 0, Num 0, Num 0] (Num 0) (Num 1) (Num 0) (Num 0.55) 4 1 2
             > bayer 2 1"
    by (simp add: cellT_def bayer_def BAYER8_def Let_def)
  have c: "8 \<in> set (cellWrites 2 1 1 2)" by (simp add: cellWrites_def u Let_def)
  have m: "8 \<in> set (drawWrites False [Num 0, Num 0, Num 0, Num 0] (Num 0) (Num 1) (Num 0)
                        (Num 0.55) 2 1 4)"
    by (rule drawWrites_member [where gx = 1 and gy = 2, OF _ _ t c]) (simp_all add: u)
  from dither_writes_in_bounds [OF m] have "(8 :: int) + 2 < 4 * (2 * 2)" by simp
  moreover have "createImageData 2 2 = Inr (replicate 16 0)" by (simp add: createImageData_def)
  ultimately show ?thesis using m by simp
qed

text \<open>
  C10 (amended). For every palette of at least one color, \<open>renderDither\<close> reads the
  palette at index 0 for the accent and at index \<open>min(1, length - 1)\<close> for the background,
  both within the palette, and at no other index: a palette with the same two entries
  gives the same render. With a single color the two are the same color. An animated
  render returns its handle. A static render whose bitmap side is not zero puts one
  buffer, in which a pixel has the accent color when the cell loops write it and the
  background color otherwise, so a single color fills it. A static render whose bitmap
  side is zero fails in \<open>createImageData\<close>, whatever the palette.
\<close>

theorem dither_palette_of_one:
  assumes "colors opts \<noteq> []"
  shows "nat (min 1 (int (length (colors opts)) - 1)) < length (colors opts)
         \<and> (\<forall>cs. cs \<noteq> [] \<and> cs ! 0 = colors opts ! 0
                  \<and> cs ! nat (min 1 (int (length cs) - 1))
                      = colors opts ! nat (min 1 (int (length (colors opts)) - 1))
               \<longrightarrow> renderDither window cv (opts\<lparr>colors := cs\<rparr>) = renderDither window cv opts)
         \<and> (\<exists>su. ditherSetup window opts = Inr su
               \<and> colA su = encoded (colors opts ! 0)
               \<and> colB su = encoded (colors opts ! nat (min 1 (int (length (colors opts)) - 1)))
               \<and> (length (colors opts) = 1 \<longrightarrow> colB su = colA su)
               \<and> sizePx su = pixelSize window opts
               \<and> (animated opts \<longrightarrow>
                    renderDither window cv opts
                      = Inr (Some CancelAnimationFrame,
                             sizeCanvas cv (real_of_int (sizePx su)) (size' opts)))
               \<and> (\<not> animated opts \<and> sizePx su = 0 \<longrightarrow>
                    renderDither window cv opts = Inl IndexSizeError)
               \<and> (\<not> animated opts \<and> sizePx su \<noteq> 0 \<longrightarrow>
                    (\<exists>d. renderDither window cv opts
                            = Inr (None, (sizeCanvas cv (real_of_int (sizePx su)) (size' opts))
                                           \<lparr>calls := calls cv @ [PutImageData d]\<rparr>)
                         \<and> int (length d) = 4 * (sizePx su * sizePx su)
                         \<and> (\<forall>k < nat (sizePx su * sizePx su).
                               pixelAt d k = (if int k * 4 \<in> set (frameWrites opts su (Num 0))
                                              then opaque (colA su) else opaque (colB su)))
                         \<and> (length (colors opts) = 1 \<longrightarrow>
                              (\<forall>k < nat (sizePx su * sizePx su).
                                 pixelAt d k = opaque (encoded (colors opts ! 0)))))))"
proof -
  from assms have idx: "nat (min 1 (int (length (colors opts)) - 1)) < length (colors opts)"
    by (cases "colors opts") simp_all
  have same: "\<forall>cs. cs \<noteq> [] \<and> cs ! 0 = colors opts ! 0
                  \<and> cs ! nat (min 1 (int (length cs) - 1))
                      = colors opts ! nat (min 1 (int (length (colors opts)) - 1))
               \<longrightarrow> renderDither window cv (opts\<lparr>colors := cs\<rparr>) = renderDither window cv opts"
    using renderDither_palette_entries [OF assms] by blast
  from renderDither_frame [OF assms, of window cv] obtain su where su:
    "ditherSetup window opts = Inr su" "colA su = encoded (colors opts ! 0)"
    "colB su = encoded (colors opts ! nat (min 1 (int (length (colors opts)) - 1)))"
    "sizePx su = pixelSize window opts"
    and anim: "animated opts \<longrightarrow>
                renderDither window cv opts
                  = Inr (Some CancelAnimationFrame,
                         sizeCanvas cv (real_of_int (sizePx su)) (size' opts))"
    and zero: "\<not> animated opts \<and> sizePx su = 0 \<longrightarrow>
                renderDither window cv opts = Inl IndexSizeError"
    and st: "\<not> animated opts \<and> sizePx su \<noteq> 0 \<longrightarrow>
                (\<exists>d pre.
                   renderDither window cv opts
                     = Inr (None, (sizeCanvas cv (real_of_int (sizePx su)) (size' opts))
                                    \<lparr>calls := calls cv @ [PutImageData d]\<rparr>)
                   \<and> int (length d) = 4 * (sizePx su * sizePx su)
                   \<and> length pre = length d
                   \<and> (\<forall>k < nat (sizePx su * sizePx su). pixelAt pre k = opaque (colB su))
                   \<and> d = foldl (paintPixel (colA su)) pre (frameWrites opts su (Num 0))
                   \<and> (\<forall>k < nat (sizePx su * sizePx su).
                         pixelAt d k = (if int k * 4 \<in> set (frameWrites opts su (Num 0))
                                        then opaque (colA su) else opaque (colB su))))"
    by blast
  have one: "length (colors opts) = 1 \<longrightarrow> colB su = colA su"
    by (simp add: su(2,3))
  have stat: "\<not> animated opts \<and> sizePx su \<noteq> 0 \<longrightarrow>
                (\<exists>d. renderDither window cv opts
                        = Inr (None, (sizeCanvas cv (real_of_int (sizePx su)) (size' opts))
                                       \<lparr>calls := calls cv @ [PutImageData d]\<rparr>)
                     \<and> int (length d) = 4 * (sizePx su * sizePx su)
                     \<and> (\<forall>k < nat (sizePx su * sizePx su).
                           pixelAt d k = (if int k * 4 \<in> set (frameWrites opts su (Num 0))
                                          then opaque (colA su) else opaque (colB su)))
                     \<and> (length (colors opts) = 1 \<longrightarrow>
                          (\<forall>k < nat (sizePx su * sizePx su).
                             pixelAt d k = opaque (encoded (colors opts ! 0)))))"
  proof
    assume "\<not> animated opts \<and> sizePx su \<noteq> 0"
    with st obtain d where d:
      "renderDither window cv opts
         = Inr (None, (sizeCanvas cv (real_of_int (sizePx su)) (size' opts))
                        \<lparr>calls := calls cv @ [PutImageData d]\<rparr>)"
      "int (length d) = 4 * (sizePx su * sizePx su)"
      "\<forall>k < nat (sizePx su * sizePx su).
         pixelAt d k = (if int k * 4 \<in> set (frameWrites opts su (Num 0))
                        then opaque (colA su) else opaque (colB su))"
      by blast
    from d(3) one su(2)
    have "length (colors opts) = 1 \<longrightarrow>
            (\<forall>k < nat (sizePx su * sizePx su). pixelAt d k = opaque (encoded (colors opts ! 0)))"
      by simp
    with d show "\<exists>d. renderDither window cv opts
                        = Inr (None, (sizeCanvas cv (real_of_int (sizePx su)) (size' opts))
                                       \<lparr>calls := calls cv @ [PutImageData d]\<rparr>)
                     \<and> int (length d) = 4 * (sizePx su * sizePx su)
                     \<and> (\<forall>k < nat (sizePx su * sizePx su).
                           pixelAt d k = (if int k * 4 \<in> set (frameWrites opts su (Num 0))
                                          then opaque (colA su) else opaque (colB su)))
                     \<and> (length (colors opts) = 1 \<longrightarrow>
                          (\<forall>k < nat (sizePx su * sizePx su).
                             pixelAt d k = opaque (encoded (colors opts ! 0))))"
      by blast
  qed
  from idx same su one anim zero stat show ?thesis by blast
qed

theorem dither_palette_of_one_witness:
  "\<exists>d.
     renderDither None
         \<lparr>width = 300, height = 150, style_width = None, style_height = None, calls = []\<rparr>
         \<lparr>size' = 64, colors = [\<lparr>oklch_l = Num 0.6, oklch_c = Num 0.2, oklch_h = Num 30\<rparr>],
          animated = False, seeds = [Num 0.1, Num 0.2, Num 0.3, Num 0.4], dotScale = None\<rparr>
       = Inr (None, \<lparr>width = 64, height = 64, style_width = Some 64, style_height = Some 64,
                     calls = [PutImageData d]\<rparr>)
     \<and> length d = 16384
     \<and> pixelAt d 0 = opaque (encoded \<lparr>oklch_l = Num 0.6, oklch_c = Num 0.2, oklch_h = Num 30\<rparr>)
     \<and> pixelAt d 4095 = opaque (encoded \<lparr>oklch_l = Num 0.6, oklch_c = Num 0.2, oklch_h = Num 30\<rparr>)"
proof -
  let ?cv = "\<lparr>width = 300, height = 150, style_width = None, style_height = None, calls = []\<rparr>"
  let ?c = "\<lparr>oklch_l = Num 0.6, oklch_c = Num 0.2, oklch_h = Num 30\<rparr>"
  let ?opts = "\<lparr>size' = 64, colors = [?c],
        animated = False, seeds = [Num 0.1, Num 0.2, Num 0.3, Num 0.4], dotScale = None\<rparr>"
  have s: "pixelSize None ?opts = 64"
    by (simp add: getDevicePixelRatio_def round_half_up_def)
  have ne: "colors ?opts \<noteq> []" by simp
  from dither_palette_of_one [OF ne, of None ?cv] obtain su where su:
    "sizePx su = pixelSize None ?opts"
    and st: "\<not> animated ?opts \<and> sizePx su \<noteq> 0 \<longrightarrow>
                (\<exists>d. renderDither None ?cv ?opts
                        = Inr (None, (sizeCanvas ?cv (real_of_int (sizePx su)) (size' ?opts))
                                       \<lparr>calls := calls ?cv @ [PutImageData d]\<rparr>)
                     \<and> int (length d) = 4 * (sizePx su * sizePx su)
                     \<and> (\<forall>k < nat (sizePx su * sizePx su).
                           pixelAt d k = (if int k * 4 \<in> set (frameWrites ?opts su (Num 0))
                                          then opaque (colA su) else opaque (colB su)))
                     \<and> (length (colors ?opts) = 1 \<longrightarrow>
                          (\<forall>k < nat (sizePx su * sizePx su).
                             pixelAt d k = opaque (encoded (colors ?opts ! 0)))))"
    by blast
  from su s have sz: "sizePx su = 64" by simp
  hence "\<not> animated ?opts \<and> sizePx su \<noteq> 0" by simp
  with st obtain d where d:
    "renderDither None ?cv ?opts
       = Inr (None, (sizeCanvas ?cv (real_of_int (sizePx su)) (size' ?opts))
                      \<lparr>calls := calls ?cv @ [PutImageData d]\<rparr>)"
    "int (length d) = 4 * (sizePx su * sizePx su)"
    "length (colors ?opts) = 1 \<longrightarrow>
       (\<forall>k < nat (sizePx su * sizePx su). pixelAt d k = opaque (encoded (colors ?opts ! 0)))"
    by blast
  from d(2) sz have l: "length d = 16384" by simp
  from d(3) sz have "pixelAt d 0 = opaque (encoded ?c)" "pixelAt d 4095 = opaque (encoded ?c)"
    by simp_all
  with d(1) l sz show ?thesis by (simp add: sizeCanvas_def)
qed

text \<open>The render does not complete for every palette of one color: with size 0 the static
  frame cannot be created.\<close>

theorem dither_palette_of_one_counterexample:
  "renderDither None
     \<lparr>width = 300, height = 150, style_width = None, style_height = None, calls = []\<rparr>
     \<lparr>size' = 0, colors = [\<lparr>oklch_l = Num 0.6, oklch_c = Num 0.2, oklch_h = Num 30\<rparr>],
      animated = False, seeds = [Num 0.1, Num 0.2, Num 0.3, Num 0.4], dotScale = None\<rparr>
   = Inl IndexSizeError"
  by (simp add: renderDither_def ditherSetup_def paletteRgb_def colorAt_def draw_def
        createImageData_def getDevicePixelRatio_def round_half_up_def Let_def)

text \<open>
  C4. With fewer than 4 colors, whatever the size, the seeds and the animation flag,
  \<open>renderGradient\<close> returns no handle and leaves the canvas, and the module's cache,
  as they were.
\<close>

theorem renderGradient_too_few_colors:
  assumes "length (colors opts) < 4"
  shows "renderGradient window probe numToString (cache, cv) opts = Inr (None, (cache, cv))"
  using assms by (simp add: renderGradient_def)

theorem renderGradient_too_few_colors_witness:
  "renderGradient (Some 2) True (\<lambda>n. ''0.5'')
     (None, \<lparr>width = 300, height = 150, style_width = None, style_height = None, calls = []\<rparr>)
     \<lparr>size' = 64,
      colors = [\<lparr>oklch_l = Num 0.6, oklch_c = Num 0.2, oklch_h = Num 30\<rparr>,
                \<lparr>oklch_l = Num 0.3, oklch_c = Num 0.1, oklch_h = Num 30\<rparr>,
                \<lparr>oklch_l = Num 0.2, oklch_c = Num 0.1, oklch_h = Num 30\<rparr>],
      animated = True, seeds = [Num 0.1, Num 0.2, Num 0.3, Num 0.4]\<rparr>
   = Inr (None, (None, \<lparr>width = 300, height = 150, style_width = None, style_height = None,
                         calls = []\<rparr>))"
  by (rule renderGradient_too_few_colors) simp

section \<open>The color round trip\<close>

subsection \<open>Powers with a rational exponent\<close>

lemma powr_rat_le:
  fixes x q :: real
  assumes "0 < x" "0 \<le> q" "0 < n" "x ^ m \<le> q ^ n"
  shows "x powr (real m / real n) \<le> q"
proof -
  have "(x powr (real m / real n)) ^ n = x powr (real m / real n * real n)"
    using assms(1) by (simp add: powr_powr flip: powr_realpow)
  also have "\<dots> = x ^ m" using assms(1,3) by (simp add: powr_realpow)
  finally have "(x powr (real m / real n)) ^ n \<le> q ^ n" using assms(4) by simp
  thus ?thesis using assms(2,3) by simp
qed

lemma powr_rat_ge:
  fixes x q :: real
  assumes "0 < x" "0 \<le> q" "0 < n" "q ^ n \<le> x ^ m"
  shows "q \<le> x powr (real m / real n)"
proof -
  have "(x powr (real m / real n)) ^ n = x powr (real m / real n * real n)"
    using assms(1) by (simp add: powr_powr flip: powr_realpow)
  also have "\<dots> = x ^ m" using assms(1,3) by (simp add: powr_realpow)
  finally have "q ^ n \<le> (x powr (real m / real n)) ^ n" using assms(4) by simp
  thus ?thesis using assms(2,3) by simp
qed

lemma powr_lipschitz:
  fixes a b j :: real
  assumes "0 < j" "j \<le> a" "a \<le> b" "0 < r" "r \<le> 1"
  shows "b powr r - a powr r \<le> r * j powr (r - 1) * (b - a)"
proof -
  define K where "K = r * j powr (r - 1)"
  define f where "f = (\<lambda>x. K * x - x powr r)"
  have "f a \<le> f b"
  proof (rule DERIV_nonneg_imp_nondecreasing [OF assms(3)])
    fix x assume x: "a \<le> x" "x \<le> b"
    hence pos: "0 < x" using assms by simp
    have "x powr (r - 1) \<le> j powr (r - 1)"
      using assms x by (intro powr_mono2') simp_all
    hence "0 \<le> K - r * x powr (r - 1)"
      using assms(4) by (simp add: K_def)
    moreover have "(f has_real_derivative (K - r * x powr (r - 1))) (at x)"
      unfolding f_def using pos
      by (auto intro!: derivative_eq_intros)
    ultimately show "\<exists>y. (f has_real_derivative y) (at x) \<and> 0 \<le> y" by blast
  qed
  thus ?thesis by (simp add: f_def K_def algebra_simps)
qed


lemma powr_neg_le:
  fixes x q r :: real
  assumes "0 < q" "q \<le> x powr r"
  shows "x powr (- r) \<le> 1 / q"
proof -
  have "x powr (- r) = inverse (x powr r)" by (simp add: powr_minus)
  also have "\<dots> \<le> inverse q" using assms by (intro le_imp_inverse_le) simp_all
  finally show ?thesis by (simp add: inverse_eq_divide)
qed

lemma powr_diff_abs:
  fixes a b j r :: real
  assumes "0 < j" "j \<le> a" "j \<le> b" "0 < r" "r \<le> 1"
  shows "\<bar>b powr r - a powr r\<bar> \<le> r * j powr (r - 1) * \<bar>b - a\<bar>"
proof (cases "a \<le> b")
  case True
  hence "a powr r \<le> b powr r" using assms by (intro powr_mono2) simp_all
  with powr_lipschitz [OF assms(1,2) True assms(4,5)] True show ?thesis by simp
next
  case False
  hence ba: "b \<le> a" by simp
  hence "b powr r \<le> a powr r" using assms by (intro powr_mono2) simp_all
  with powr_lipschitz [OF assms(1,3) ba assms(4,5)] ba show ?thesis by simp
qed

lemma clamp_close:
  fixes v w e :: real
  assumes "0 \<le> v" "v \<le> 1" "\<bar>w - v\<bar> \<le> e"
  shows "\<bar>max 0 (min 1 w) - v\<bar> \<le> e"
  using assms by (auto simp add: max_def min_def abs_le_iff)

subsection \<open>One channel through the gamma curve\<close>

text \<open>
  The gamma curve is undone exactly by its inverse; what is left of one channel is the
  error \<open>w - v\<close> of its linear value. The four numerical facts bound the curve at the
  junction of its two branches and at the bytes 10, 11 and 12 around it.
\<close>

lemma num_j_lower: "(9047 / 100000 :: real) \<le> (31308 / 10000000) powr (5 / 12)"
proof -
  have "((9047 / 100000) ^ 12 :: real) \<le> (31308 / 10000000) ^ 5" by (simp add: power_divide)
  from powr_rat_ge [OF _ _ _ this] show ?thesis by simp
qed

lemma num_j_slope: "(31308 / 10000000 :: real) powr (- (7 / 12)) \<le> 2895 / 100"
proof -
  have "((3455 / 100000) ^ 12 :: real) \<le> (31308 / 10000000) ^ 7" by (simp add: power_divide)
  from powr_rat_ge [OF _ _ _ this]
  have "(3455 / 100000 :: real) \<le> (31308 / 10000000) powr (7 / 12)" by simp
  from powr_neg_le [OF _ this] have "(31308 / 10000000 :: real) powr (- (7 / 12)) \<le> 1 / (3455 / 100000)"
    by simp
  thus ?thesis by simp
qed

lemma num_mid_slope: "(99 / 1000 :: real) powr (- (7 / 12)) \<le> 386 / 100"
proof -
  have "((2592 / 10000) ^ 12 :: real) \<le> (99 / 1000) ^ 7" by (simp add: power_divide)
  from powr_rat_ge [OF _ _ _ this]
  have "(2592 / 10000 :: real) \<le> (99 / 1000) powr (7 / 12)" by simp
  from powr_neg_le [OF _ this] have "(99 / 1000 :: real) powr (- (7 / 12)) \<le> 1 / (2592 / 10000)"
    by simp
  thus ?thesis by simp
qed

lemma num_ten_upper: "(334 / 100000 :: real) powr (5 / 12) \<le> 93 / 1000"
proof -
  have "((334 / 100000) ^ 5 :: real) \<le> (93 / 1000) ^ 12" by (simp add: power_divide)
  from powr_rat_le [OF _ _ _ this] show ?thesis by simp
qed

lemma num_lin11: "(3346 / 1000000 :: real) \<le> (1001 / 10761) powr (12 / 5)"
proof -
  have "((3346 / 1000000) ^ 5 :: real) \<le> (1001 / 10761) ^ 12" by (simp add: power_divide)
  from powr_rat_ge [OF _ _ _ this] show ?thesis by simp
qed

lemma num_lin12: "(367 / 100000 :: real) \<le> (347 / 3587) powr (12 / 5)"
proof -
  have "((367 / 100000) ^ 5 :: real) \<le> (347 / 3587) ^ 12" by (simp add: power_divide)
  from powr_rat_ge [OF _ _ _ this] show ?thesis by simp
qed

lemma channel_real:
  fixes c :: nat and v w cv out :: real
  assumes c: "c \<le> 255"
    and v: "v = (if real c / 255 \<le> 4045 / 100000 then real c / 255 / (1292 / 100)
                 else ((real c / 255 + 55 / 1000) / (1055 / 1000)) powr (12 / 5))"
    and err: "\<bar>w - v\<bar> \<le> 3 / 10000 + 3 / 10000 * v"
    and cv: "cv = max 0 (min 1 w)"
    and out: "out = (if cv \<le> 31308 / 10000000 then cv * (1292 / 100)
                     else 1055 / 1000 * cv powr (5 / 12) - 55 / 1000) * 255"
  shows "\<bar>out - real c\<bar> \<le> 11 / 10 \<and> 0 \<le> out \<and> out \<le> 255"
proof -
  have cv01: "0 \<le> cv" "cv \<le> 1" by (simp_all add: cv)
  have range: "0 \<le> out \<and> out \<le> 255"
  proof (cases "cv \<le> 31308 / 10000000")
    case True
    hence "out = 16473 / 5 * cv" by (simp add: out)
    with True cv01 show ?thesis by (intro conjI) linarith+
  next
    case False
    hence j: "31308 / 10000000 \<le> cv" by simp
    have "(31308 / 10000000) powr (5 / 12) \<le> cv powr (5 / 12)"
      using j by (intro powr_mono2) simp_all
    with num_j_lower have lo: "9047 / 100000 \<le> cv powr (5 / 12)" by simp
    have "cv powr (5 / 12) \<le> 1 powr (5 / 12)"
      using cv01 by (intro powr_mono2) simp_all
    hence hi: "cv powr (5 / 12) \<le> 1" by simp
    from False have "out = 1055 * 255 / 1000 * cv powr (5 / 12) - 55 * 255 / 1000"
      by (simp add: out algebra_simps)
    with lo hi show ?thesis by (intro conjI) linarith+
  qed
  have close: "\<bar>out - real c\<bar> \<le> 11 / 10"
  proof (cases "c \<le> 10")
    case True
    hence rc: "real c \<le> 10" by simp
    hence veq: "v = real c / 255 / (1292 / 100)" by (simp add: v)
    hence veq': "real c = 16473 / 5 * v" by simp
    have v0: "0 \<le> v" by (simp add: veq)
    from rc have v1: "v \<le> 1" by (simp add: veq)
    from clamp_close [OF v0 v1 err] have d: "\<bar>cv - v\<bar> \<le> 3 / 10000 + 3 / 10000 * v"
      by (simp add: cv)
    show ?thesis
    proof (cases "cv \<le> 31308 / 10000000")
      case True
      hence "out = 16473 / 5 * cv" by (simp add: out)
      with d veq' rc show ?thesis by linarith
    next
      case False
      hence j: "31308 / 10000000 < cv" by simp
      have "\<not> c \<le> 9"
      proof
        assume "c \<le> 9"
        hence "real c \<le> 9" by simp
        with d veq' j show False by linarith
      qed
      with True have "c = 10" by simp
      hence c10: "real c = 10" by simp
      with d veq' have up: "cv \<le> 334 / 100000" by linarith
      have "(31308 / 10000000) powr (5 / 12) \<le> cv powr (5 / 12)"
        using j by (intro powr_mono2) simp_all
      with num_j_lower have lo: "9047 / 100000 \<le> cv powr (5 / 12)" by simp
      have "cv powr (5 / 12) \<le> (334 / 100000) powr (5 / 12)"
        using up cv01 by (intro powr_mono2) simp_all
      with num_ten_upper have hi: "cv powr (5 / 12) \<le> 93 / 1000" by simp
      from False have "out = 1055 * 255 / 1000 * cv powr (5 / 12) - 55 * 255 / 1000"
        by (simp add: out algebra_simps)
      with lo hi c10 show ?thesis by linarith
    qed
  next
    case False
    hence c11: "11 \<le> c" by simp
    hence rc: "11 \<le> real c" by simp
    from c have rc': "real c \<le> 255" by simp
    define u where "u = (real c / 255 + 55 / 1000) / (1055 / 1000)"
    have ceq: "real c = 1055 * 255 / 1000 * u - 55 * 255 / 1000" by (simp add: u_def field_simps)
    from rc have veq: "v = u powr (12 / 5)" by (simp add: v u_def)
    from rc ceq have u11: "1001 / 10761 \<le> u" by linarith
    hence upos: "0 < u" by simp
    from rc' ceq have u1: "u \<le> 1" by linarith
    have "(1001 / 10761) powr (12 / 5) \<le> u powr (12 / 5)"
      using u11 by (intro powr_mono2) simp_all
    with num_lin11 veq have vlo: "3346 / 1000000 \<le> v" by simp
    have "u powr (12 / 5) \<le> 1 powr (12 / 5)"
      using u1 upos by (intro powr_mono2) simp_all
    with veq have v1: "v \<le> 1" by simp
    have vu: "v powr (5 / 12) = u" using upos by (simp add: veq powr_powr)
    from vlo have v0: "0 \<le> v" by simp
    from clamp_close [OF v0 v1 err] have d: "\<bar>cv - v\<bar> \<le> 3 / 10000 + 3 / 10000 * v"
      by (simp add: cv)
    show ?thesis
    proof (cases "cv \<le> 31308 / 10000000")
      case True
      hence o: "out = 16473 / 5 * cv" by (simp add: out)
      have "\<not> 12 \<le> c"
      proof
        assume "12 \<le> c"
        hence "12 \<le> real c" by simp
        with ceq have "347 / 3587 \<le> u" by linarith
        hence "(347 / 3587) powr (12 / 5) \<le> u powr (12 / 5)"
          by (intro powr_mono2) simp_all
        with num_lin12 veq have "367 / 100000 \<le> v" by simp
        with d True show False by linarith
      qed
      with c11 have "c = 11" by simp
      hence "real c = 11" by simp
      with o d True vlo show ?thesis by linarith
    next
      case False
      hence j: "31308 / 10000000 \<le> cv" by simp
      from False have o: "out = 1055 * 255 / 1000 * cv powr (5 / 12) - 55 * 255 / 1000"
        by (simp add: out algebra_simps)
      define D where "D = cv powr (5 / 12) - v powr (5 / 12)"
      have diff: "out - real c = 53805 / 200 * D"
        unfolding o ceq vu D_def by (simp add: algebra_simps)
      show ?thesis
      proof (cases "v \<le> 1 / 10")
        case True
        from vlo have jv: "31308 / 10000000 \<le> v" by simp
        from d True have d': "\<bar>cv - v\<bar> \<le> 33 / 100000" by linarith
        have "\<bar>cv powr (5 / 12) - v powr (5 / 12)\<bar>
                \<le> 5 / 12 * (31308 / 10000000) powr (5 / 12 - 1) * \<bar>cv - v\<bar>"
          by (rule powr_diff_abs [OF _ jv j]) simp_all
        also have "\<dots> \<le> 5 / 12 * (2895 / 100) * \<bar>cv - v\<bar>"
          using num_j_slope by (intro mult_right_mono mult_left_mono) simp_all
        also have "\<dots> \<le> 5 / 12 * (2895 / 100) * (33 / 100000)"
          using d' by (intro mult_left_mono) simp_all
        finally have "\<bar>cv powr (5 / 12) - v powr (5 / 12)\<bar> \<le> 5 / 12 * (2895 / 100) * (33 / 100000)" .
        hence "\<bar>D\<bar> \<le> 4 / 1000" by (simp add: D_def)
        with diff show ?thesis by linarith
      next
        case False
        hence v10: "1 / 10 \<le> v" by simp
        hence jv: "99 / 1000 \<le> v" by simp
        from d v1 have d': "\<bar>cv - v\<bar> \<le> 6 / 10000" by linarith
        from d' v10 have jc: "99 / 1000 \<le> cv" by linarith
        have "\<bar>cv powr (5 / 12) - v powr (5 / 12)\<bar>
                \<le> 5 / 12 * (99 / 1000) powr (5 / 12 - 1) * \<bar>cv - v\<bar>"
          by (rule powr_diff_abs [OF _ jv jc]) simp_all
        also have "\<dots> \<le> 5 / 12 * (386 / 100) * \<bar>cv - v\<bar>"
          using num_mid_slope by (intro mult_right_mono mult_left_mono) simp_all
        also have "\<dots> \<le> 5 / 12 * (386 / 100) * (6 / 10000)"
          using d' by (intro mult_left_mono) simp_all
        finally have "\<bar>cv powr (5 / 12) - v powr (5 / 12)\<bar> \<le> 5 / 12 * (386 / 100) * (6 / 10000)" .
        hence "\<bar>D\<bar> \<le> 4 / 1000" by (simp add: D_def)
        with diff show ?thesis by linarith
      qed
    qed
  qed
  from close range show ?thesis by simp
qed

subsection \<open>Chroma and hue\<close>

text \<open>The polar form of \<open>(a, b)\<close> gives \<open>a\<close> and \<open>b\<close> back, whatever the turn that the
  remainder by 360 removes from the hue.\<close>

lemma sqrt_factor:
  fixes a b :: real
  assumes "a \<noteq> 0"
  shows "sqrt (a * a + b * b) = \<bar>a\<bar> * sqrt (1 + (b / a)\<^sup>2)"
proof -
  have "a * a + b * b = (a * a) * (1 + (b / a)\<^sup>2)"
    using assms by (simp add: field_simps power2_eq_square)
  thus ?thesis by (simp add: real_sqrt_mult)
qed

lemma polar_arctan:
  fixes a b :: real
  assumes "a \<noteq> 0"
  shows "sqrt (a * a + b * b) * cos (arctan (b / a)) = \<bar>a\<bar>"
    and "sqrt (a * a + b * b) * sin (arctan (b / a)) = \<bar>a\<bar> * (b / a)"
proof -
  have pos: "0 < sqrt (1 + (b / a)\<^sup>2)"
    by (simp add: add_pos_nonneg)
  show "sqrt (a * a + b * b) * cos (arctan (b / a)) = \<bar>a\<bar>"
    using pos by (simp add: sqrt_factor [OF assms] cos_arctan)
  show "sqrt (a * a + b * b) * sin (arctan (b / a)) = \<bar>a\<bar> * (b / a)"
    using pos by (simp add: sqrt_factor [OF assms] sin_arctan)
qed

lemma polar_atan2:
  "sqrt (a * a + b * b) * cos (atan2 b a) = a"
  "sqrt (a * a + b * b) * sin (atan2 b a) = b"
proof -
  consider "0 < a" | "a < 0" | "a = 0" by linarith
  hence "sqrt (a * a + b * b) * cos (atan2 b a) = a \<and> sqrt (a * a + b * b) * sin (atan2 b a) = b"
  proof cases
    case 1
    hence "a \<noteq> 0" by simp
    from polar_arctan [OF this, of b] 1 show ?thesis by (simp add: atan2_def)
  next
    case 2
    hence "a \<noteq> 0" by simp
    from polar_arctan [OF this, of b] 2 show ?thesis by (simp add: atan2_def)
  next
    case 3
    thus ?thesis by (simp add: atan2_def)
  qed
  thus "sqrt (a * a + b * b) * cos (atan2 b a) = a" "sqrt (a * a + b * b) * sin (atan2 b a) = b"
    by simp_all
qed

lemma hue_angle:
  "\<exists>n :: int. fmod (t * 180 / pi + 360) 360 * pi / 180 = t + 2 * pi * real_of_int n"
proof -
  have "fmod (t * 180 / pi + 360) 360 * pi / 180
        = t + 2 * pi * real_of_int (1 - trunc ((t * 180 / pi + 360) / 360))"
    by (simp add: fmod_def field_simps)
  thus ?thesis by blast
qed

lemma hue_cos_sin:
  "cos (fmod (t * 180 / pi + 360) 360 * pi / 180) = cos t"
  "sin (fmod (t * 180 / pi + 360) 360 * pi / 180) = sin t"
proof -
  from hue_angle [of t] obtain n :: int
    where n: "fmod (t * 180 / pi + 360) 360 * pi / 180 = t + 2 * pi * real_of_int n" by blast
  show "cos (fmod (t * 180 / pi + 360) 360 * pi / 180) = cos t"
    unfolding n by (simp add: cos_add)
  show "sin (fmod (t * 180 / pi + 360) 360 * pi / 180) = sin t"
    unfolding n by (simp add: sin_add)
qed

subsection \<open>The matrices\<close>

text \<open>
  The matrices of \<open>oklchToHex\<close> are the inverses of those of \<open>rgbToOklch\<close> up to the digits
  that the source gives: the products differ from the identity by less than
  \<open>8 / 10 ^ 8\<close> for the pair around the cube root, and by less than \<open>3 / 10 ^ 4\<close> for the
  pair around the linear colors.
\<close>

lemma cube_close:
  fixes x y M :: real
  assumes "\<bar>x\<bar> \<le> M" "\<bar>y\<bar> \<le> M"
  shows "\<bar>x * x * x - y * y * y\<bar> \<le> 3 * M * M * \<bar>x - y\<bar>"
proof -
  have M: "0 \<le> M" using assms(1) by linarith
  have "\<bar>x\<bar> * \<bar>x\<bar> \<le> M * M" "\<bar>x\<bar> * \<bar>y\<bar> \<le> M * M" "\<bar>y\<bar> * \<bar>y\<bar> \<le> M * M"
    using assms M by (intro mult_mono; simp)+
  hence xx: "\<bar>x * x\<bar> \<le> M * M" "\<bar>x * y\<bar> \<le> M * M" "\<bar>y * y\<bar> \<le> M * M"
    by (simp_all add: abs_mult)
  hence "\<bar>x * x + x * y + y * y\<bar> \<le> 3 * M * M" by linarith
  hence "\<bar>x - y\<bar> * \<bar>x * x + x * y + y * y\<bar> \<le> \<bar>x - y\<bar> * (3 * M * M)"
    by (intro mult_left_mono) simp_all
  moreover have "x * x * x - y * y * y = (x - y) * (x * x + x * y + y * y)"
    by (simp add: algebra_simps)
  ultimately show ?thesis by (simp add: abs_mult mult.commute)
qed

lemma cube_step:
  fixes x y :: real
  assumes "0 \<le> y" "y \<le> 10002 / 10000" "\<bar>x - y\<bar> \<le> 8 / 100000000"
  shows "\<bar>x * x * x - y * y * y\<bar> \<le> 25 / 100000000"
proof -
  from assms have b: "\<bar>x\<bar> \<le> 1001 / 1000" "\<bar>y\<bar> \<le> 1001 / 1000" by linarith+
  have "\<bar>x * x * x - y * y * y\<bar> \<le> 3 * (1001 / 1000) * (1001 / 1000) * \<bar>x - y\<bar>"
    by (rule cube_close [OF b])
  also have "\<dots> \<le> 3 * (1001 / 1000) * (1001 / 1000) * (8 / 100000000)"
    using assms(3) by (intro mult_left_mono) simp_all
  finally show ?thesis by simp
qed

lemma cbrt_range:
  fixes p :: real
  assumes "0 \<le> p" "p \<le> 10006 / 10000"
  shows "0 \<le> root 3 p" "root 3 p \<le> 10002 / 10000" "root 3 p * root 3 p * root 3 p = p"
proof -
  show "0 \<le> root 3 p" using assms by simp
  have "p \<le> (10002 / 10000) ^ 3" using assms(2) by (simp add: power_divide)
  hence "root 3 p \<le> root 3 ((10002 / 10000) ^ 3)" by (simp add: real_root_le_iff)
  also have "\<dots> = 10002 / 10000" by (rule real_root_power_cancel) simp_all
  finally show "root 3 p \<le> 10002 / 10000" .
  have "root 3 p ^ 3 = p" by (rule odd_real_root_pow) simp
  thus "root 3 p * root 3 p * root 3 p = p" by (simp add: power3_eq_cube)
qed

lemma lab_matrix_error:
  fixes l m s :: real
  assumes L: "L = 0.2104542553 * l + 0.7936177850 * m - 0.0040720468 * s"
    and a: "a = 1.9779984951 * l - 2.4285922050 * m + 0.4505937099 * s"
    and b: "b = 0.0259040371 * l + 0.7827717662 * m - 0.8086757660 * s"
    and l': "l' = L + 0.3963377774 * a + 0.2158037573 * b"
    and m': "m' = L - 0.1055613458 * a - 0.0638541728 * b"
    and s': "s' = L - 0.0894841775 * a - 1.2914855480 * b"
  shows "l' - l = - (2891610261343 / 100000000000000000000) * l + 1825682598813 / 50000000000000000000 * m + - (302403460777 / 50000000000000000000) * s"
    and "m' - m = - (434716585823 / 50000000000000000000) * l + 73432337241 / 25000000000000000000 * m + - (156236120931 / 50000000000000000000) * s"
    and "s' - s = - (53595342221 / 20000000000000000000) * l + - (624823984901 / 10000000000000000000) * m + 41959018643 / 4000000000000000000 * s"
  unfolding l' m' s' L a b by (simp_all add: algebra_simps)

lemma lab_round_trip:
  fixes l m s :: real
  assumes l: "0 \<le> l" "l \<le> 10002 / 10000"
    and m: "0 \<le> m" "m \<le> 10002 / 10000"
    and s: "0 \<le> s" "s \<le> 10002 / 10000"
    and L: "L = 0.2104542553 * l + 0.7936177850 * m - 0.0040720468 * s"
    and a: "a = 1.9779984951 * l - 2.4285922050 * m + 0.4505937099 * s"
    and b: "b = 0.0259040371 * l + 0.7827717662 * m - 0.8086757660 * s"
    and l': "l' = L + 0.3963377774 * a + 0.2158037573 * b"
    and m': "m' = L - 0.1055613458 * a - 0.0638541728 * b"
    and s': "s' = L - 0.0894841775 * a - 1.2914855480 * b"
  shows "\<bar>l' * l' * l' - l * l * l\<bar> \<le> 25 / 100000000"
    and "\<bar>m' * m' * m' - m * m * m\<bar> \<le> 25 / 100000000"
    and "\<bar>s' * s' * s' - s * s * s\<bar> \<le> 25 / 100000000"
proof -
  note e = lab_matrix_error [OF L a b l' m' s']
  from e(1) l m s have "\<bar>l' - l\<bar> \<le> 8 / 100000000" by linarith
  from cube_step [OF l this] show "\<bar>l' * l' * l' - l * l * l\<bar> \<le> 25 / 100000000" .
  from e(2) l m s have "\<bar>m' - m\<bar> \<le> 8 / 100000000" by linarith
  from cube_step [OF m this] show "\<bar>m' * m' * m' - m * m * m\<bar> \<le> 25 / 100000000" .
  from e(3) l m s have "\<bar>s' - s\<bar> \<le> 8 / 100000000" by linarith
  from cube_step [OF s this] show "\<bar>s' * s' * s' - s * s * s\<bar> \<le> 25 / 100000000" .
qed

lemma lms_matrix:
  fixes tr tg tb :: real
  assumes x: "x = 0.4124564 * tr + 0.3575761 * tg + 0.1804375 * tb"
    and y: "y = 0.2126729 * tr + 0.7151522 * tg + 0.0721750 * tb"
    and z: "z = 0.0193339 * tr + 0.1191920 * tg + 0.9503041 * tb"
    and p1: "p1 = 0.8189330101 * x + 0.3618667424 * y - 0.1288597137 * z"
    and p2: "p2 = 0.0329845436 * x + 0.9293118715 * y + 0.0361456387 * z"
    and p3: "p3 = 0.0482003018 * x + 0.2643662691 * y + 0.6338517070 * z"
  shows "p1 = 41224204988806617 / 100000000000000000 * tr + 53626162185168149 / 100000000000000000 * tg + 2571402144435129 / 50000000000000000 * tb"
    and "p2 = 5298574324732333 / 25000000000000000 * tr + 34035109240902033 / 50000000000000000 * tg + 10737408156506617 / 100000000000000000 * tb"
    and "p3 = 8835888958898621 / 100000000000000000 * tr + 70461861887467 / 250000000000000 * tg + 6301296533824287 / 10000000000000000 * tb"
  unfolding p1 p2 p3 x y z by (simp_all add: algebra_simps)

lemma lms_range:
  fixes tr tg tb :: real
  assumes t: "0 \<le> tr" "tr \<le> 1" "0 \<le> tg" "tg \<le> 1" "0 \<le> tb" "tb \<le> 1"
    and x: "x = 0.4124564 * tr + 0.3575761 * tg + 0.1804375 * tb"
    and y: "y = 0.2126729 * tr + 0.7151522 * tg + 0.0721750 * tb"
    and z: "z = 0.0193339 * tr + 0.1191920 * tg + 0.9503041 * tb"
    and p1: "p1 = 0.8189330101 * x + 0.3618667424 * y - 0.1288597137 * z"
    and p2: "p2 = 0.0329845436 * x + 0.9293118715 * y + 0.0361456387 * z"
    and p3: "p3 = 0.0482003018 * x + 0.2643662691 * y + 0.6338517070 * z"
  shows "0 \<le> p1" "p1 \<le> 10006 / 10000" "0 \<le> p2" "p2 \<le> 10006 / 10000"
    "0 \<le> p3" "p3 \<le> 10006 / 10000"
  using lms_matrix [OF x y z p1 p2 p3] t by linarith+

lemma rgb_matrix_error:
  fixes tr tg tb :: real
  assumes x: "x = 0.4124564 * tr + 0.3575761 * tg + 0.1804375 * tb"
    and y: "y = 0.2126729 * tr + 0.7151522 * tg + 0.0721750 * tb"
    and z: "z = 0.0193339 * tr + 0.1191920 * tg + 0.9503041 * tb"
    and p1: "p1 = 0.8189330101 * x + 0.3618667424 * y - 0.1288597137 * z"
    and p2: "p2 = 0.0329845436 * x + 0.9293118715 * y + 0.0361456387 * z"
    and p3: "p3 = 0.0482003018 * x + 0.2643662691 * y + 0.6338517070 * z"
    and rl: "rl = 4.0767416621 * (p1 + z1) - 3.3077115913 * (p2 + z2) + 0.2309699292 * (p3 + z3)"
    and gl: "gl = - 1.2684380046 * (p1 + z1) + 2.6097574011 * (p2 + z2) - 0.3413193965 * (p3 + z3)"
    and bl: "bl = - 0.0041960863 * (p1 + z1) - 0.7034186147 * (p2 + z2) + 1.7076147010 * (p3 + z3)"
  shows "rl - tr = - (33642330523566495602627 / 1000000000000000000000000000) * tr + - (268126352008569784952129 / 1000000000000000000000000000) * tg + 37352275238523004309937 / 1000000000000000000000000000 * tb + 40767416621 / 10000000000 * z1 + - (33077115913 / 10000000000) * z2 + 577424823 / 2500000000 * z3"
    and "gl - tg = 11531265558084131440801 / 200000000000000000000000000 * tr + 827226655135835792373 / 15625000000000000000000000 * tg + - (88453060727359677620631 / 1000000000000000000000000000) * tb + - (6342190023 / 5000000000) * z1 + 26097574011 / 10000000000 * z2 + - (682638793 / 2000000000) * z3"
    and "bl - tb = 13700630568248761295787 / 200000000000000000000000000 * tr + 218056962843873451841711 / 1000000000000000000000000000 * tg + 273935436484872668371347 / 1000000000000000000000000000 * tb + - (41960863 / 10000000000) * z1 + - (7034186147 / 10000000000) * z2 + 1707614701 / 1000000000 * z3"
  unfolding rl gl bl p1 p2 p3 x y z by (simp_all add: algebra_simps)

lemma linear_round_trip:
  fixes tr tg tb :: real
  assumes t: "0 \<le> tr" "tr \<le> 1" "0 \<le> tg" "tg \<le> 1" "0 \<le> tb" "tb \<le> 1"
    and x: "x = 0.4124564 * tr + 0.3575761 * tg + 0.1804375 * tb"
    and y: "y = 0.2126729 * tr + 0.7151522 * tg + 0.0721750 * tb"
    and z: "z = 0.0193339 * tr + 0.1191920 * tg + 0.9503041 * tb"
    and p1: "p1 = 0.8189330101 * x + 0.3618667424 * y - 0.1288597137 * z"
    and p2: "p2 = 0.0329845436 * x + 0.9293118715 * y + 0.0361456387 * z"
    and p3: "p3 = 0.0482003018 * x + 0.2643662691 * y + 0.6338517070 * z"
    and c: "\<bar>L3 - p1\<bar> \<le> 25 / 100000000" "\<bar>M3 - p2\<bar> \<le> 25 / 100000000"
           "\<bar>S3 - p3\<bar> \<le> 25 / 100000000"
    and rl: "rl = 4.0767416621 * L3 - 3.3077115913 * M3 + 0.2309699292 * S3"
    and gl: "gl = - 1.2684380046 * L3 + 2.6097574011 * M3 - 0.3413193965 * S3"
    and bl: "bl = - 0.0041960863 * L3 - 0.7034186147 * M3 + 1.7076147010 * S3"
  shows "\<bar>rl - tr\<bar> \<le> 3 / 10000 + 3 / 10000 * tr"
    and "\<bar>gl - tg\<bar> \<le> 3 / 10000 + 3 / 10000 * tg"
    and "\<bar>bl - tb\<bar> \<le> 3 / 10000 + 3 / 10000 * tb"
proof -
  define z1 z2 z3 where "z1 = L3 - p1" and "z2 = M3 - p2" and "z3 = S3 - p3"
  have zs: "\<bar>z1\<bar> \<le> 25 / 100000000" "\<bar>z2\<bar> \<le> 25 / 100000000" "\<bar>z3\<bar> \<le> 25 / 100000000"
    using c by (simp_all add: z1_def z2_def z3_def)
  have rl': "rl = 4.0767416621 * (p1 + z1) - 3.3077115913 * (p2 + z2) + 0.2309699292 * (p3 + z3)"
    by (simp add: rl z1_def z2_def z3_def)
  have gl': "gl = - 1.2684380046 * (p1 + z1) + 2.6097574011 * (p2 + z2) - 0.3413193965 * (p3 + z3)"
    by (simp add: gl z1_def z2_def z3_def)
  have bl': "bl = - 0.0041960863 * (p1 + z1) - 0.7034186147 * (p2 + z2) + 1.7076147010 * (p3 + z3)"
    by (simp add: bl z1_def z2_def z3_def)
  note e = rgb_matrix_error [OF x y z p1 p2 p3 rl' gl' bl']
  from e(1) t zs show "\<bar>rl - tr\<bar> \<le> 3 / 10000 + 3 / 10000 * tr" by linarith
  from e(2) t zs show "\<bar>gl - tg\<bar> \<le> 3 / 10000 + 3 / 10000 * tg" by linarith
  from e(3) t zs show "\<bar>bl - tb\<bar> \<le> 3 / 10000 + 3 / 10000 * tb" by linarith
qed

subsection \<open>The hexadecimal string\<close>

lemma signed_drop_bit_word_of_int:
  "signed_drop_bit k (word_of_int i :: 32 word) = word_of_int (drop_bit k (signed_take_bit 31 i))"
  by transfer simp

lemma and_255_word_of_int: "(word_of_int j :: 32 word) AND 255 = word_of_int (take_bit 8 j)"
  using and_mask_wi [of j 8, where 'a = 32] by (simp add: mask_eq_decr_exp)

lemma unat_word_of_int: "0 \<le> j \<Longrightarrow> j < 2 ^ 32 \<Longrightarrow> unat (word_of_int j :: 32 word) = nat j"
  by (simp add: unat_eq_nat_uint uint_word_of_int_eq take_bit_int_eq_self)

lemma byte_of_word:
  assumes "0 \<le> i" "i < 2 ^ 31"
  shows "unat (signed_drop_bit k (word_of_int i :: 32 word) AND 255) = nat (i div 2 ^ k mod 256)"
proof -
  have "signed_take_bit 31 i = i"
    using assms by (simp add: signed_take_bit_int_eq_self)
  hence "signed_drop_bit k (word_of_int i :: 32 word) AND 255
         = word_of_int (take_bit 8 (drop_bit k i))"
    by (simp add: signed_drop_bit_word_of_int and_255_word_of_int)
  moreover have "0 \<le> take_bit 8 (drop_bit k i)" by simp
  moreover have "take_bit 8 (drop_bit k i) < 2 ^ 32"
    by (rule less_trans [OF take_bit_int_less_exp]) simp
  ultimately have "unat (signed_drop_bit k (word_of_int i :: 32 word) AND 255)
                   = nat (take_bit 8 (drop_bit k i))"
    by (simp add: unat_word_of_int)
  also have "\<dots> = nat (i div 2 ^ k mod 256)"
    by (simp add: take_bit_eq_mod drop_bit_eq_div)
  finally show ?thesis .
qed

lemma hexDigitChar_code:
  "d < 16 \<Longrightarrow> charCode (hexDigitChar d) = (if d < 10 then 48 + d else 87 + d)"
  by (simp add: hexDigitChar_def charCode_char_of)

lemma hexDigitChar_hex:
  assumes "d < 16"
  shows "isHexDigit (hexDigitChar d)" "hexDigitValue (hexDigitChar d) = d"
    "\<not> isWhiteSpace (hexDigitChar d)"
  using assms hexDigitChar_code [OF assms]
  by (auto simp add: isHexDigit_def isDigit_def hexDigitValue_def isWhiteSpace_def)

lemma hexDigitChar_neq:
  assumes "d < 16"
  shows "hexDigitChar d \<noteq> CHR ''#''" "hexDigitChar d \<noteq> CHR ''-''" "hexDigitChar d \<noteq> CHR ''+''"
    "hexDigitChar d \<noteq> CHR ''x''" "hexDigitChar d \<noteq> CHR ''X''"
proof -
  have c: "charCode (hexDigitChar d) \<notin> {35, 45, 43, 120, 88}"
    using assms by (simp add: hexDigitChar_code)
  have k: "charCode CHR ''#'' = 35" "charCode CHR ''-'' = 45" "charCode CHR ''+'' = 43"
    "charCode CHR ''x'' = 120" "charCode CHR ''X'' = 88"
    by (simp_all add: charCode_def)
  from c k show "hexDigitChar d \<noteq> CHR ''#''" "hexDigitChar d \<noteq> CHR ''-''"
    "hexDigitChar d \<noteq> CHR ''+''" "hexDigitChar d \<noteq> CHR ''x''" "hexDigitChar d \<noteq> CHR ''X''"
    by auto
qed

lemma padStart_hex:
  assumes "k < 256"
  shows "padStart (hexOfNat k) 2 CHR ''0'' = [hexDigitChar (k div 16), hexDigitChar (k mod 16)]"
proof (cases "k < 16")
  case True
  hence "hexOfNat k = [hexDigitChar k]" by (subst hexOfNat.simps) (simp del: hexOfNat.simps)
  moreover have "char_of (48 :: nat) = CHR ''0''" by code_simp
  hence "hexDigitChar 0 = CHR ''0''" by (simp add: hexDigitChar_def)
  ultimately show ?thesis using True by (simp add: padStart_def del: hexOfNat.simps)
next
  case False
  from assms have "k div 16 < 16" by simp
  hence "hexOfNat (k div 16) = [hexDigitChar (k div 16)]"
    by (subst hexOfNat.simps) (simp del: hexOfNat.simps)
  with False have "hexOfNat k = [hexDigitChar (k div 16), hexDigitChar (k mod 16)]"
    by (subst hexOfNat.simps) (simp del: hexOfNat.simps)
  thus ?thesis by (simp add: padStart_def del: hexOfNat.simps)
qed

lemma hexByte_digits:
  assumes "Math_round (toSrgb v * Num 255) = Num (real_of_int n)" "0 \<le> n" "n \<le> 255"
  shows "hexByte v = [hexDigitChar (nat n div 16), hexDigitChar (nat n mod 16)]"
proof -
  from assms(2) have "toString16 (Num (real_of_int n)) = hexOfNat (nat n)"
    by (simp add: trunc_of_int del: hexOfNat.simps)
  moreover from assms(2,3) have "nat n < 256" by simp
  ultimately show ?thesis by (simp add: hexByte_def assms(1) padStart_hex del: hexOfNat.simps)
qed

lemma parseInt16_plain:
  assumes "trimStart s = s" "\<not> startsWith s ''-''" "\<not> startsWith s ''+''"
    and "\<not> startsWith s ''0x''" "\<not> startsWith s ''0X''"
    and "takeWhile isHexDigit s = s" "s \<noteq> []" "digitsValue 16 s = N" "N < 2 ^ 53"
  shows "parseInt16 s = Num (real N)"
proof -
  have d: "toDouble_nat N = N" using assms(9) by (simp add: toDouble_nat_def)
  have "(2 :: nat) ^ 53 \<le> 2 ^ 1024" by (rule power_increasing) simp_all
  with assms(9) have big: "\<not> (2 :: nat) ^ 1024 \<le> N" by linarith
  show ?thesis
    unfolding parseInt16_def Let_def assms(1)
    using assms(2-5,7) big by (simp only: if_False assms(6,8) d simp_thms)
qed

lemma parseInt16_six:
  assumes "a1 < 16" "a2 < 16" "a3 < 16" "a4 < 16" "a5 < 16" "a6 < 16"
  shows "parseInt16 [hexDigitChar a1, hexDigitChar a2, hexDigitChar a3,
                     hexDigitChar a4, hexDigitChar a5, hexDigitChar a6]
         = Num (real (((((a1 * 16 + a2) * 16 + a3) * 16 + a4) * 16 + a5) * 16 + a6))"
proof (rule parseInt16_plain)
  let ?s = "[hexDigitChar a1, hexDigitChar a2, hexDigitChar a3,
             hexDigitChar a4, hexDigitChar a5, hexDigitChar a6]"
  let ?N = "((((a1 * 16 + a2) * 16 + a3) * 16 + a4) * 16 + a5) * 16 + a6"
  show "trimStart ?s = ?s" using assms by (simp add: trimStart_def hexDigitChar_hex)
  show "\<not> startsWith ?s ''-''" "\<not> startsWith ?s ''+''"
    using assms by (simp_all add: startsWith_def hexDigitChar_neq)
  show "\<not> startsWith ?s ''0x''" "\<not> startsWith ?s ''0X''"
    using assms by (simp_all add: startsWith_def hexDigitChar_neq)
  show "takeWhile isHexDigit ?s = ?s" using assms by (simp add: hexDigitChar_hex)
  show "?s \<noteq> []" by simp
  show "digitsValue 16 ?s = ?N" using assms by (simp add: digitsValue_def hexDigitChar_hex)
  have "?N < 16777216" using assms by simp
  thus "?N < 2 ^ 53" by simp
qed

lemma nat_byte_of_int: "nat (int N div 2 ^ k mod 256) = N div 2 ^ k mod 256"
proof -
  have "int N div 2 ^ k mod 256 = int (N div 2 ^ k mod 256)"
    by (simp add: zdiv_int zmod_int)
  thus ?thesis by simp
qed

lemma packed_bytes:
  fixes R G B :: nat
  assumes "R < 256" "G < 256" "B < 256"
  shows "(R * 65536 + G * 256 + B) div 2 ^ 16 mod 256 = R"
    "(R * 65536 + G * 256 + B) div 2 ^ 8 mod 256 = G"
    "(R * 65536 + G * 256 + B) div 2 ^ 0 mod 256 = B"
proof -
  have "(R * 65536 + G * 256 + B) div 65536 = R" using assms by simp
  thus "(R * 65536 + G * 256 + B) div 2 ^ 16 mod 256 = R" using assms by simp
  have "R * 65536 + G * 256 + B = (R * 256 + G) * 256 + B" by simp
  hence "(R * 65536 + G * 256 + B) div 256 = R * 256 + G" using assms by simp
  thus "(R * 65536 + G * 256 + B) div 2 ^ 8 mod 256 = G" using assms by simp
  have e: "R * 65536 + G * 256 + B = B + (R * 256 + G) * 256" by simp
  have "(B + (R * 256 + G) * 256) mod 256 = B mod 256" by (rule mod_mult_self1)
  with assms(3) have "(B + (R * 256 + G) * 256) mod 256 = B" by simp
  thus "(R * 65536 + G * 256 + B) div 2 ^ 0 mod 256 = B" by (simp only: e power_0 div_by_1)
qed

lemma hex_digits_value:
  fixes R G B :: nat
  shows "((((R div 16 * 16 + R mod 16) * 16 + G div 16) * 16 + G mod 16) * 16 + B div 16) * 16
           + B mod 16 = R * 65536 + G * 256 + B"
proof -
  have s: "(a * 16 + b) * 16 + c = a * 256 + (b * 16 + c)" for a b c :: nat by simp
  have q: "x div 16 * 16 + x mod 16 = x" for x :: nat by simp
  have "((((R div 16 * 16 + R mod 16) * 16 + G div 16) * 16 + G mod 16) * 16 + B div 16) * 16
           + B mod 16 = (R * 256 + G) * 256 + B"
    by (simp only: s q)
  thus ?thesis by simp
qed

subsection \<open>The conversions on numbers\<close>

lemma toSrgb_Num:
  "toSrgb (Num w) =
     Num (if max 0 (min 1 w) \<le> 31308 / 10000000 then max 0 (min 1 w) * (1292 / 100)
          else 1055 / 1000 * max 0 (min 1 w) powr (5 / 12) - 55 / 1000)"
proof -
  have "Math_max (Num 0) (Math_min (Num 1) (Num w)) = Num (max 0 (min 1 w))" by simp
  thus ?thesis unfolding toSrgb_def Let_def by (auto simp add: max_def min_def)
qed

lemma linearize_Num:
  "linearize (Num c) =
     Num (if c / 255 \<le> 4045 / 100000 then c / 255 / (1292 / 100)
          else ((c / 255 + 55 / 1000) / (1055 / 1000)) powr (12 / 5))"
  by (simp add: linearize_def Let_def)

lemma hexToRgb_bytes:
  assumes "R < 256" "G < 256" "B < 256"
  shows "hexToRgb (''#'' @ [hexDigitChar (R div 16), hexDigitChar (R mod 16),
                           hexDigitChar (G div 16), hexDigitChar (G mod 16),
                           hexDigitChar (B div 16), hexDigitChar (B mod 16)]) = (R, G, B)"
proof -
  let ?s = "[hexDigitChar (R div 16), hexDigitChar (R mod 16),
             hexDigitChar (G div 16), hexDigitChar (G mod 16),
             hexDigitChar (B div 16), hexDigitChar (B mod 16)]"
  define N where "N = R * 65536 + G * 256 + B"
  have d: "R div 16 < 16" "R mod 16 < 16" "G div 16 < 16" "G mod 16 < 16" "B div 16 < 16"
    "B mod 16 < 16"
    using assms by simp_all
  have p: "parseInt16 ?s = Num (real N)"
    unfolding N_def by (simp only: parseInt16_six [OF d] hex_digits_value)
  have r: "removeHash (''#'' @ ?s) = ?s" by (simp add: removeHash_def)
  have n: "0 \<le> int N" "int N < 2 ^ 31" using assms by (simp_all add: N_def)
  have t: "ToInt32 (Num (real N)) = word_of_int (int N)"
    using trunc_of_int [of "int N"] by simp
  have b: "shiftByte (Num (real N)) k = nat (int N div 2 ^ k mod 256)" for k
    unfolding shiftByte_def t by (rule byte_of_word [OF n])
  have "shiftByte (Num (real N)) 16 = R"
    by (simp only: b nat_byte_of_int) (simp only: N_def packed_bytes(1) [OF assms])
  moreover have "shiftByte (Num (real N)) 8 = G"
    by (simp only: b nat_byte_of_int) (simp only: N_def packed_bytes(2) [OF assms])
  moreover have "shiftByte (Num (real N)) 0 = B"
    by (simp only: b nat_byte_of_int) (simp only: N_def packed_bytes(3) [OF assms])
  moreover have len: "(length ?s = 3) = False" by simp
  ultimately show ?thesis by (simp only: hexToRgb_def r Let_def len if_False p)
qed

lemma linearize_range:
  assumes "c \<le> 255"
  shows "\<exists>v. linearize (Num (real c)) = Num v \<and> 0 \<le> v \<and> v \<le> 1
             \<and> v = (if real c / 255 \<le> 4045 / 100000 then real c / 255 / (1292 / 100)
                    else ((real c / 255 + 55 / 1000) / (1055 / 1000)) powr (12 / 5))"
proof -
  define v where "v = (if real c / 255 \<le> 4045 / 100000 then real c / 255 / (1292 / 100)
                    else ((real c / 255 + 55 / 1000) / (1055 / 1000)) powr (12 / 5))"
  have l: "linearize (Num (real c)) = Num v" by (simp only: linearize_Num v_def)
  from assms have rc: "0 \<le> real c" "real c \<le> 255" by simp_all
  have "0 \<le> v \<and> v \<le> 1"
  proof (cases "real c / 255 \<le> 4045 / 100000")
    case True
    hence "v = real c / 255 / (1292 / 100)" by (simp add: v_def)
    with rc show ?thesis by simp
  next
    case False
    define u where "u = (real c / 255 + 55 / 1000) / (1055 / 1000)"
    from False have veq: "v = u powr (12 / 5)" by (simp add: v_def u_def)
    from rc have u: "0 \<le> u" "u \<le> 1" by (simp_all add: u_def)
    hence "u powr (12 / 5) \<le> 1 powr (12 / 5)" by (intro powr_mono2) simp_all
    thus ?thesis by (simp add: veq)
  qed
  with l v_def show ?thesis by blast
qed

lemma channel_byte:
  assumes c: "c \<le> 255"
    and v: "v = (if real c / 255 \<le> 4045 / 100000 then real c / 255 / (1292 / 100)
                 else ((real c / 255 + 55 / 1000) / (1055 / 1000)) powr (12 / 5))"
    and err: "\<bar>w - v\<bar> \<le> 3 / 10000 + 3 / 10000 * v"
  shows "\<exists>n. Math_round (toSrgb (Num w) * Num 255) = Num (real_of_int n)
             \<and> 0 \<le> n \<and> n \<le> 255 \<and> \<bar>n - int c\<bar> \<le> 1"
proof -
  define cv where "cv = max 0 (min 1 w)"
  define out where "out = (if cv \<le> 31308 / 10000000 then cv * (1292 / 100)
                     else 1055 / 1000 * cv powr (5 / 12) - 55 / 1000) * 255"
  from channel_real [OF c v err cv_def out_def]
  have o: "\<bar>out - real c\<bar> \<le> 11 / 10" "0 \<le> out" "out \<le> 255" by simp_all
  have "toSrgb (Num w) * Num 255 = Num out"
    unfolding toSrgb_Num out_def cv_def by simp
  hence m: "Math_round (toSrgb (Num w) * Num 255) = Num (real_of_int (round_half_up out))"
    by simp
  have f: "round_half_up out = \<lfloor>out + 1 / 2\<rfloor>" by (simp add: round_half_up_def)
  from o(2,3) have "0 \<le> round_half_up out" "round_half_up out \<le> 255"
    unfolding f by linarith+
  moreover from o(1) have "\<bar>round_half_up out - int c\<bar> \<le> 1"
    unfolding f by linarith
  ultimately show ?thesis using m by blast
qed

lemma rgbToOklch_Num:
  assumes "linearize r = Num tr" "linearize g = Num tg" "linearize b = Num tb"
  shows "rgbToOklch r g b =
     (let x = 0.4124564 * tr + 0.3575761 * tg + 0.1804375 * tb;
          y = 0.2126729 * tr + 0.7151522 * tg + 0.0721750 * tb;
          z = 0.0193339 * tr + 0.1191920 * tg + 0.9503041 * tb;
          lm = root 3 (0.8189330101 * x + 0.3618667424 * y - 0.1288597137 * z);
          mm = root 3 (0.0329845436 * x + 0.9293118715 * y + 0.0361456387 * z);
          sm = root 3 (0.0482003018 * x + 0.2643662691 * y + 0.6338517070 * z);
          L = 0.2104542553 * lm + 0.7936177850 * mm - 0.0040720468 * sm;
          a = 1.9779984951 * lm - 2.4285922050 * mm + 0.4505937099 * sm;
          bk = 0.0259040371 * lm + 0.7827717662 * mm - 0.8086757660 * sm
      in \<lparr>oklch_l = Num L,
          oklch_c = Num (sqrt (a * a + bk * bk)),
          oklch_h = Num (fmod (atan2 bk a * 180 / pi + 360) 360)\<rparr>)"
  by (simp add: rgbToOklch_def assms Let_def Math_PI_def)

lemma oklchToHex_Num:
  "oklchToHex \<lparr>oklch_l = Num l, oklch_c = Num c, oklch_h = Num h\<rparr> =
     (let hRad = h * pi / 180;
          a = c * cos hRad; b = c * sin hRad;
          lm = l + 0.3963377774 * a + 0.2158037573 * b;
          mm = l - 0.1055613458 * a - 0.0638541728 * b;
          sm = l - 0.0894841775 * a - 1.2914855480 * b;
          L3 = lm * lm * lm; M3 = mm * mm * mm; S3 = sm * sm * sm;
          rl = 4.0767416621 * L3 - 3.3077115913 * M3 + 0.2309699292 * S3;
          gl = - 1.2684380046 * L3 + 2.6097574011 * M3 - 0.3413193965 * S3;
          bl = - 0.0041960863 * L3 - 0.7034186147 * M3 + 1.7076147010 * S3
      in ''#'' @ hexByte (Num rl) @ hexByte (Num gl) @ hexByte (Num bl))"
  by (simp add: oklchToHex_def Let_def Math_PI_def)

text \<open>
  C8. For all bytes \<open>r\<close>, \<open>g\<close> and \<open>b\<close>, the color that \<open>oklchToHex\<close> writes for
  \<open>rgbToOklch(r, g, b)\<close>, read back with \<open>hexToRgb\<close>, has each of its three channels
  within 1 of the original byte.
\<close>

theorem rgb_oklch_round_trip:
  assumes "r \<le> 255" "g \<le> 255" "b \<le> 255"
  shows "\<exists>r' g' b'.
           hexToRgb (oklchToHex (rgbToOklch (Num (real r)) (Num (real g)) (Num (real b))))
             = (r', g', b')
           \<and> \<bar>int r' - int r\<bar> \<le> 1 \<and> \<bar>int g' - int g\<bar> \<le> 1 \<and> \<bar>int b' - int b\<bar> \<le> 1"
proof -
  from linearize_range [OF assms(1)] obtain tr where tr:
    "linearize (Num (real r)) = Num tr" "0 \<le> tr" "tr \<le> 1"
    "tr = (if real r / 255 \<le> 4045 / 100000 then real r / 255 / (1292 / 100)
           else ((real r / 255 + 55 / 1000) / (1055 / 1000)) powr (12 / 5))"
    by blast
  from linearize_range [OF assms(2)] obtain tg where tg:
    "linearize (Num (real g)) = Num tg" "0 \<le> tg" "tg \<le> 1"
    "tg = (if real g / 255 \<le> 4045 / 100000 then real g / 255 / (1292 / 100)
           else ((real g / 255 + 55 / 1000) / (1055 / 1000)) powr (12 / 5))"
    by blast
  from linearize_range [OF assms(3)] obtain tb where tb:
    "linearize (Num (real b)) = Num tb" "0 \<le> tb" "tb \<le> 1"
    "tb = (if real b / 255 \<le> 4045 / 100000 then real b / 255 / (1292 / 100)
           else ((real b / 255 + 55 / 1000) / (1055 / 1000)) powr (12 / 5))"
    by blast
  define x where "x = 0.4124564 * tr + 0.3575761 * tg + 0.1804375 * tb"
  define y where "y = 0.2126729 * tr + 0.7151522 * tg + 0.0721750 * tb"
  define z where "z = 0.0193339 * tr + 0.1191920 * tg + 0.9503041 * tb"
  define p1 where "p1 = 0.8189330101 * x + 0.3618667424 * y - 0.1288597137 * z"
  define p2 where "p2 = 0.0329845436 * x + 0.9293118715 * y + 0.0361456387 * z"
  define p3 where "p3 = 0.0482003018 * x + 0.2643662691 * y + 0.6338517070 * z"
  define l where "l = root 3 p1"
  define m where "m = root 3 p2"
  define s where "s = root 3 p3"
  define L where "L = 0.2104542553 * l + 0.7936177850 * m - 0.0040720468 * s"
  define a where "a = 1.9779984951 * l - 2.4285922050 * m + 0.4505937099 * s"
  define bk where "bk = 0.0259040371 * l + 0.7827717662 * m - 0.8086757660 * s"
  define C where "C = sqrt (a * a + bk * bk)"
  define h where "h = fmod (atan2 bk a * 180 / pi + 360) 360"
  have fwd: "rgbToOklch (Num (real r)) (Num (real g)) (Num (real b))
             = \<lparr>oklch_l = Num L, oklch_c = Num C, oklch_h = Num h\<rparr>"
    by (simp only: rgbToOklch_Num [OF tr(1) tg(1) tb(1)] Let_def L_def a_def bk_def C_def h_def
          l_def m_def s_def p1_def p2_def p3_def x_def y_def z_def)
  define hr where "hr = h * pi / 180"
  define a' where "a' = C * cos hr"
  define b' where "b' = C * sin hr"
  define l' where "l' = L + 0.3963377774 * a' + 0.2158037573 * b'"
  define m' where "m' = L - 0.1055613458 * a' - 0.0638541728 * b'"
  define s' where "s' = L - 0.0894841775 * a' - 1.2914855480 * b'"
  define L3 where "L3 = l' * l' * l'"
  define M3 where "M3 = m' * m' * m'"
  define S3 where "S3 = s' * s' * s'"
  define rl where "rl = 4.0767416621 * L3 - 3.3077115913 * M3 + 0.2309699292 * S3"
  define gl where "gl = - 1.2684380046 * L3 + 2.6097574011 * M3 - 0.3413193965 * S3"
  define bl where "bl = - 0.0041960863 * L3 - 0.7034186147 * M3 + 1.7076147010 * S3"
  have bwd: "oklchToHex \<lparr>oklch_l = Num L, oklch_c = Num C, oklch_h = Num h\<rparr>
             = ''#'' @ hexByte (Num rl) @ hexByte (Num gl) @ hexByte (Num bl)"
    by (simp only: oklchToHex_Num Let_def rl_def gl_def bl_def L3_def M3_def S3_def
          l'_def m'_def s'_def a'_def b'_def hr_def)
  note p = lms_range [OF tr(2,3) tg(2,3) tb(2,3) x_def y_def z_def p1_def p2_def p3_def]
  note cl = cbrt_range [OF p(1,2), folded l_def]
  note cm = cbrt_range [OF p(3,4), folded m_def]
  note cs = cbrt_range [OF p(5,6), folded s_def]
  have a'_eq: "a' = a" and b'_eq: "b' = bk"
    by (simp_all only: a'_def b'_def hr_def h_def C_def hue_cos_sin polar_atan2)
  have l'_eq: "l' = L + 0.3963377774 * a + 0.2158037573 * bk"
    and m'_eq: "m' = L - 0.1055613458 * a - 0.0638541728 * bk"
    and s'_eq: "s' = L - 0.0894841775 * a - 1.2914855480 * bk"
    by (simp_all only: l'_def m'_def s'_def a'_eq b'_eq)
  note lab = lab_round_trip [OF cl(1,2) cm(1,2) cs(1,2) L_def a_def bk_def l'_eq m'_eq s'_eq]
  have c: "\<bar>L3 - p1\<bar> \<le> 25 / 100000000" "\<bar>M3 - p2\<bar> \<le> 25 / 100000000"
    "\<bar>S3 - p3\<bar> \<le> 25 / 100000000"
    using lab by (simp_all only: L3_def M3_def S3_def cl(3) cm(3) cs(3))
  note e = linear_round_trip [OF tr(2,3) tg(2,3) tb(2,3) x_def y_def z_def p1_def p2_def p3_def
             c rl_def gl_def bl_def]
  from channel_byte [OF assms(1) tr(4) e(1)] obtain nr where nr:
    "Math_round (toSrgb (Num rl) * Num 255) = Num (real_of_int nr)" "0 \<le> nr" "nr \<le> 255"
    "\<bar>nr - int r\<bar> \<le> 1"
    by blast
  from channel_byte [OF assms(2) tg(4) e(2)] obtain ng where ng:
    "Math_round (toSrgb (Num gl) * Num 255) = Num (real_of_int ng)" "0 \<le> ng" "ng \<le> 255"
    "\<bar>ng - int g\<bar> \<le> 1"
    by blast
  from channel_byte [OF assms(3) tb(4) e(3)] obtain nb where nb:
    "Math_round (toSrgb (Num bl) * Num 255) = Num (real_of_int nb)" "0 \<le> nb" "nb \<le> 255"
    "\<bar>nb - int b\<bar> \<le> 1"
    by blast
  have lt: "nat nr < 256" "nat ng < 256" "nat nb < 256" using nr(3) ng(3) nb(3) by simp_all
  have "hexToRgb (oklchToHex (rgbToOklch (Num (real r)) (Num (real g)) (Num (real b))))
        = (nat nr, nat ng, nat nb)"
    unfolding fwd bwd hexByte_digits [OF nr(1-3)] hexByte_digits [OF ng(1-3)]
      hexByte_digits [OF nb(1-3)]
    using hexToRgb_bytes [OF lt] by simp
  moreover have "\<bar>int (nat nr) - int r\<bar> \<le> 1" "\<bar>int (nat ng) - int g\<bar> \<le> 1"
    "\<bar>int (nat nb) - int b\<bar> \<le> 1"
    using nr(2,4) ng(2,4) nb(2,4) by simp_all
  ultimately show ?thesis by blast
qed

theorem rgb_oklch_round_trip_witness:
  "\<exists>r' g' b'.
     hexToRgb (oklchToHex (rgbToOklch (Num 200) (Num 100) (Num 50))) = (r', g', b')
     \<and> \<bar>int r' - 200\<bar> \<le> 1 \<and> \<bar>int g' - 100\<bar> \<le> 1 \<and> \<bar>int b' - 50\<bar> \<le> 1"
  using rgb_oklch_round_trip [of 200 100 50] by simp

end
